theory Spec2Isabelle
  imports Main "HOL-Library.Word"
begin

section \<open>Data model (src/types.ts and the state of src/App.tsx)\<close>

text \<open>
  A \<^verbatim>\<open>Uint8Array\<close> is a list of bytes. No handler of the application writes into an
  array that is held in the state: each one clones first (\<^verbatim>\<open>new Uint8Array(pixels)\<close>) and
  stores the clone, so arrays are modelled as values and a clone is the array itself.
  JavaScript numbers are modelled as unbounded integers (coordinates of a floating layer may
  be negative); array lengths are not bounded by memory.
\<close>

type_synonym u8 = "8 word"
type_synonym Uint8Array = "u8 list"

datatype DrawTool = PEN | ERASER | SELECT
datatype ByteOrder = MSB_FIRST | LSB_FIRST
datatype ScanMode = HORIZONTAL_RASTER | VERTICAL_PAGE

text \<open>The fields \<^verbatim>\<open>x, y, w, h\<close> of the source carry a prefix here.\<close>

record SelectionRect =
  sel_x :: int
  sel_y :: int
  sel_w :: int
  sel_h :: int

record FloatingLayer =
  fl_x :: int
  fl_y :: int
  fl_w :: int
  fl_h :: int
  fl_data :: Uint8Array

record ClipboardData =
  clip_width :: int
  clip_height :: int
  clip_pixels :: Uint8Array

text \<open>
  The state variables of the \<^verbatim>\<open>App\<close> component that the edit engine uses (zoom, colour,
  cursor position and the last image file are presentation or collaborator state).
\<close>

record AppState =
  width :: int
  height :: int
  pixels :: Uint8Array
  history :: "Uint8Array list"
  historyIndex :: int
  tool :: DrawTool
  scanMode :: ScanMode
  byteOrder :: ByteOrder
  selection :: "SelectionRect option"
  clipboard :: "ClipboardData option"
  floatingLayer :: "FloatingLayer option"
  backgroundSnapshot :: "Uint8Array option"

datatype error = RangeError

text \<open>
  A handler either runs to its end, or throws; the state updates it queued before the
  throw are still applied by React, so a thrown outcome carries that state.
\<close>

datatype outcome = Done AppState | Thrown error AppState

section \<open>Typed arrays and loops\<close>

text \<open>\<^verbatim>\<open>new Uint8Array(n)\<close>: zero-filled; a negative length throws RangeError.\<close>

definition new_Uint8Array :: "int \<Rightarrow> error + Uint8Array" where
  "new_Uint8Array n = (if n < 0 then Inl RangeError else Inr (replicate (nat n) 0))"

text \<open>Reading a typed array out of range gives \<^verbatim>\<open>undefined\<close> (here \<open>None\<close>).\<close>

definition u8_get :: "Uint8Array \<Rightarrow> int \<Rightarrow> u8 option" where
  "u8_get a i = (if 0 \<le> i \<and> i < int (length a) then Some (a ! nat i) else None)"

text \<open>
  Writing a typed array out of range does nothing; writing \<^verbatim>\<open>undefined\<close> stores 0.
\<close>

definition u8_set :: "Uint8Array \<Rightarrow> int \<Rightarrow> u8 option \<Rightarrow> Uint8Array" where
  "u8_set a i v =
     (if 0 \<le> i \<and> i < int (length a)
      then a[nat i := (case v of None \<Rightarrow> 0 | Some b \<Rightarrow> b)]
      else a)"

text \<open>\<^verbatim>\<open>for (let c = 0; c < n; c++) body\<close>, the body not assigning \<^verbatim>\<open>c\<close>.\<close>

definition for_loop :: "int \<Rightarrow> (int \<Rightarrow> 'a \<Rightarrow> 'a) \<Rightarrow> 'a \<Rightarrow> 'a" where
  "for_loop n body acc = fold body [0..n - 1] acc"

text \<open>\<^verbatim>\<open>xs.slice(0, e)\<close> of a JavaScript array: a negative end counts from the end.\<close>

definition slice0 :: "'a list \<Rightarrow> int \<Rightarrow> 'a list" where
  "slice0 xs e =
     take (nat (if e < 0 then max (int (length xs) + e) 0 else min e (int (length xs)))) xs"

text \<open>
  \<^verbatim>\<open>new Uint8Array(history[i])\<close>: an index out of range reads \<^verbatim>\<open>undefined\<close>, and the
  clone of \<^verbatim>\<open>undefined\<close> is the empty array.
\<close>

definition history_at :: "Uint8Array list \<Rightarrow> int \<Rightarrow> Uint8Array" where
  "history_at hs i = (if 0 \<le> i \<and> i < int (length hs) then hs ! nat i else [])"

section \<open>History management (src/App.tsx, addToHistory, handleUndo, handleRedo)\<close>

text \<open>
  Every handler is a function of the state of the render it was created in: what it reads
  is that state, and each \<^verbatim>\<open>setX(v)\<close> overwrites one field of the result. A handler
  that calls another one and goes on reading \<^verbatim>\<open>pixels\<close> or \<^verbatim>\<open>selection\<close> still
  reads the old values, which the definitions below write out.

  A callback made with \<^verbatim>\<open>useCallback\<close> is kept until one of its dependencies changes.
  addToHistory, handleUndo, handleRedo, handleCopy and handleDiscardFloatingLayer list all
  the state they read, so they are applied to the current state. handleCut and
  handleCommitFloatingLayer (and through it handlePaste, handleLiftSelection and
  handleDeselect) and the Delete key handler reach addToHistory through updatePixels
  without listing \<^verbatim>\<open>history\<close> or \<^verbatim>\<open>historyIndex\<close>: they push onto the history of the
  render that created them. That history and its index are the argument \<open>seen\<close> of
  these handlers; it is \<open>historyView s\<close> when the callback was created in the current
  render.
\<close>

type_synonym HistoryView = "Uint8Array list \<times> int"

definition historyView :: "AppState \<Rightarrow> HistoryView" where
  "historyView s = (history s, historyIndex s)"

definition addToHistory :: "AppState \<Rightarrow> Uint8Array \<Rightarrow> AppState" where
  "addToHistory s newPixels =
     (let newHistory = slice0 (history s) (historyIndex s + 1);
          newHistory1 = (if length newHistory > 50 then tl newHistory else newHistory);
          newHistory2 = newHistory1 @ [newPixels]
      in s\<lparr>history := newHistory2, historyIndex := int (length newHistory2) - 1\<rparr>)"

text \<open>
  updatePixels of a render that saw the history \<open>seen\<close>, called in state \<open>s\<close>: its
  addToHistory computes the new history from \<open>seen\<close>.
\<close>

definition updatePixels :: "HistoryView \<Rightarrow> AppState \<Rightarrow> Uint8Array \<Rightarrow> bool \<Rightarrow> AppState" where
  "updatePixels seen s newPixels saveHistory =
     (let s1 = s\<lparr>pixels := newPixels\<rparr>
      in if saveHistory
         then addToHistory (s1\<lparr>history := fst seen, historyIndex := snd seen\<rparr>) newPixels
         else s1)"

definition handleDiscardFloatingLayer :: "AppState \<Rightarrow> AppState" where
  "handleDiscardFloatingLayer s =
     (case floatingLayer s of
        None \<Rightarrow> s
      | Some fl \<Rightarrow>
          (let s1 = (case backgroundSnapshot s of Some b \<Rightarrow> s\<lparr>pixels := b\<rparr> | None \<Rightarrow> s)
           in s1\<lparr>floatingLayer := None, backgroundSnapshot := None\<rparr>))"

definition handleUndo :: "AppState \<Rightarrow> AppState" where
  "handleUndo s =
     (if floatingLayer s \<noteq> None then handleDiscardFloatingLayer s
      else if historyIndex s > 0 then
        (let newIndex = historyIndex s - 1
         in s\<lparr>historyIndex := newIndex, pixels := history_at (history s) newIndex\<rparr>)
      else s)"

definition handleRedo :: "AppState \<Rightarrow> AppState" where
  "handleRedo s =
     (if floatingLayer s \<noteq> None then s
      else if historyIndex s < int (length (history s)) - 1 then
        (let newIndex = historyIndex s + 1
         in s\<lparr>historyIndex := newIndex, pixels := history_at (history s) newIndex\<rparr>)
      else s)"

definition handleStrokeEnd :: "AppState \<Rightarrow> AppState" where
  "handleStrokeEnd s = (if floatingLayer s = None then addToHistory s (pixels s) else s)"

section \<open>Clipboard and floating layer (src/App.tsx)\<close>

definition copy_region :: "Uint8Array \<Rightarrow> int \<Rightarrow> SelectionRect \<Rightarrow> Uint8Array \<Rightarrow> Uint8Array" where
  "copy_region px wd sel clipPixels =
     for_loop (sel_h sel) (\<lambda>cy.
       for_loop (sel_w sel) (\<lambda>cx clip.
         (let srcIdx = (sel_y sel + cy) * wd + (sel_x sel + cx)
          in if srcIdx < int (length px)
             then u8_set clip (cy * sel_w sel + cx) (u8_get px srcIdx)
             else clip))) clipPixels"

definition handleCopy :: "AppState \<Rightarrow> outcome" where
  "handleCopy s =
     (case selection s of
        None \<Rightarrow> Done s
      | Some sel \<Rightarrow>
          (case new_Uint8Array (sel_w sel * sel_h sel) of
             Inl e \<Rightarrow> Thrown e s
           | Inr clipPixels \<Rightarrow>
               Done (s\<lparr>clipboard := Some \<lparr>clip_width = sel_w sel, clip_height = sel_h sel,
                         clip_pixels = copy_region (pixels s) (width s) sel clipPixels\<rparr>\<rparr>)))"

definition clear_region :: "Uint8Array \<Rightarrow> int \<Rightarrow> SelectionRect \<Rightarrow> Uint8Array" where
  "clear_region px wd sel =
     for_loop (sel_h sel) (\<lambda>cy.
       for_loop (sel_w sel) (\<lambda>cx newPixels.
         (let idx = (sel_y sel + cy) * wd + (sel_x sel + cx)
          in if idx < int (length newPixels) then u8_set newPixels idx (Some 0)
             else newPixels))) px"

definition handleCut :: "HistoryView \<Rightarrow> AppState \<Rightarrow> outcome" where
  "handleCut seen s =
     (case selection s of
        None \<Rightarrow> Done s
      | Some sel \<Rightarrow>
          (case handleCopy s of
             Thrown e t \<Rightarrow> Thrown e t
           | Done s1 \<Rightarrow>
               Done (updatePixels seen s1 (clear_region (pixels s) (width s) sel) True)))"

definition merge_layer :: "Uint8Array \<Rightarrow> int \<Rightarrow> int \<Rightarrow> FloatingLayer \<Rightarrow> Uint8Array" where
  "merge_layer px wd ht fl =
     for_loop (fl_h fl) (\<lambda>cy.
       for_loop (fl_w fl) (\<lambda>cx newPixels.
         (let targetX = fl_x fl + cx; targetY = fl_y fl + cy
          in if targetX \<ge> 0 \<and> targetX < wd \<and> targetY \<ge> 0 \<and> targetY < ht
             then u8_set newPixels (targetY * wd + targetX)
                    (u8_get (fl_data fl) (cy * fl_w fl + cx))
             else newPixels))) px"

definition handleCommitFloatingLayer :: "HistoryView \<Rightarrow> AppState \<Rightarrow> AppState" where
  "handleCommitFloatingLayer seen s =
     (case floatingLayer s of
        None \<Rightarrow> s
      | Some fl \<Rightarrow>
          (updatePixels seen s (merge_layer (pixels s) (width s) (height s) fl) True)
            \<lparr>selection := None, floatingLayer := None, backgroundSnapshot := None\<rparr>)"

definition handlePaste :: "HistoryView \<Rightarrow> AppState \<Rightarrow> AppState" where
  "handlePaste seen s =
     (case clipboard s of
        None \<Rightarrow> s
      | Some clip \<Rightarrow>
          (let s1 = (if floatingLayer s \<noteq> None then handleCommitFloatingLayer seen s
                     else s);
               startX = (case selection s of Some sel \<Rightarrow> sel_x sel | None \<Rightarrow> 0);
               startY = (case selection s of Some sel \<Rightarrow> sel_y sel | None \<Rightarrow> 0)
           in s1\<lparr>backgroundSnapshot := Some (pixels s),
                 floatingLayer := Some \<lparr>fl_x = startX, fl_y = startY,
                   fl_w = clip_width clip, fl_h = clip_height clip,
                   fl_data = clip_pixels clip\<rparr>,
                 tool := SELECT\<rparr>))"

definition lift_region ::
  "Uint8Array \<Rightarrow> int \<Rightarrow> SelectionRect \<Rightarrow> Uint8Array \<times> Uint8Array \<Rightarrow> Uint8Array \<times> Uint8Array" where
  "lift_region px wd rect =
     for_loop (sel_h rect) (\<lambda>cy.
       for_loop (sel_w rect) (\<lambda>cx (buffer, newPixels).
         (let idx = (sel_y rect + cy) * wd + (sel_x rect + cx)
          in if idx < int (length px)
             then (u8_set buffer (cy * sel_w rect + cx) (u8_get px idx),
                   u8_set newPixels idx (Some 0))
             else (buffer, newPixels))))"

definition handleLiftSelection :: "HistoryView \<Rightarrow> AppState \<Rightarrow> SelectionRect \<Rightarrow> outcome" where
  "handleLiftSelection seen s rect =
     (let s1 = (if floatingLayer s \<noteq> None then handleCommitFloatingLayer seen s else s);
          s2 = s1\<lparr>backgroundSnapshot := Some (pixels s)\<rparr>
      in case new_Uint8Array (sel_w rect * sel_h rect) of
           Inl e \<Rightarrow> Thrown e s2
         | Inr buffer0 \<Rightarrow>
             (case lift_region (pixels s) (width s) rect (buffer0, pixels s) of
                (buffer, newPixels) \<Rightarrow>
                  Done (s2\<lparr>pixels := newPixels,
                           floatingLayer := Some \<lparr>fl_x = sel_x rect, fl_y = sel_y rect,
                             fl_w = sel_w rect, fl_h = sel_h rect, fl_data = buffer\<rparr>\<rparr>)))"

definition handleDeselect :: "HistoryView \<Rightarrow> AppState \<Rightarrow> AppState" where
  "handleDeselect seen s =
     (if floatingLayer s \<noteq> None then handleCommitFloatingLayer seen s
      else s\<lparr>selection := None\<rparr>)"

text \<open>
  Dragging a floating layer (src/components/EditorCanvas.tsx, handleDraw): the layer is
  replaced by a copy at the new position; without a layer nothing is set.
\<close>

definition dragFloatingLayer :: "AppState \<Rightarrow> int \<Rightarrow> int \<Rightarrow> AppState" where
  "dragFloatingLayer s newX newY =
     (case floatingLayer s of
        None \<Rightarrow> s
      | Some fl \<Rightarrow> s\<lparr>floatingLayer := Some (fl\<lparr>fl_x := newX, fl_y := newY\<rparr>)\<rparr>)"

text \<open>
  clearCanvas and invertCanvas (src/App.tsx) are not memoised: they are those of the
  current render. The argument \<^verbatim>\<open>new Uint8Array(width * height)\<close> of clearCanvas is
  evaluated after \<^verbatim>\<open>setFloatingLayer(null)\<close> was queued.
\<close>

definition clearCanvas :: "AppState \<Rightarrow> outcome" where
  "clearCanvas s =
     (let s1 = s\<lparr>floatingLayer := None\<rparr>
      in case new_Uint8Array (width s * height s) of
           Inl e \<Rightarrow> Thrown e s1
         | Inr blank \<Rightarrow> Done (updatePixels (historyView s) s1 blank True))"

definition invertCanvas :: "AppState \<Rightarrow> AppState" where
  "invertCanvas s =
     updatePixels (historyView s) s (map (\<lambda>p. if p \<noteq> 0 then 0 else 1) (pixels s)) True"

text \<open>The Delete and Backspace keys (src/App.tsx, handleKeyDown).\<close>

definition handleDeleteKey :: "HistoryView \<Rightarrow> AppState \<Rightarrow> AppState" where
  "handleDeleteKey seen s =
     (if floatingLayer s \<noteq> None then handleDiscardFloatingLayer s
      else case selection s of
             Some sel \<Rightarrow> updatePixels seen s (clear_region (pixels s) (width s) sel) True
           | None \<Rightarrow> s)"

text \<open>The Escape key (src/App.tsx, handleKeyDown).\<close>

definition handleEscapeKey :: "AppState \<Rightarrow> AppState" where
  "handleEscapeKey s =
     (if floatingLayer s \<noteq> None then handleDiscardFloatingLayer s
      else if selection s \<noteq> None then s\<lparr>selection := None\<rparr>
      else s)"

text \<open>
  handleSetDimensions (src/App.tsx) with no image file loaded; it is not memoised. The
  history written by updatePixels is overwritten in the same batch by
  \<^verbatim>\<open>setHistory([])\<close> and \<^verbatim>\<open>setHistoryIndex(-1)\<close>. The callback it passes to
  \<^verbatim>\<open>setTimeout\<close> runs later and seeds the history with the blank buffer.
\<close>

definition handleSetDimensions :: "AppState \<Rightarrow> int \<Rightarrow> int \<Rightarrow> outcome" where
  "handleSetDimensions s w h =
     (let s1 = s\<lparr>width := w, height := h\<rparr>
      in case new_Uint8Array (w * h) of
           Inl e \<Rightarrow> Thrown e s1
         | Inr newP \<Rightarrow>
             Done ((updatePixels (historyView s) s1 newP True)
                     \<lparr>history := [], historyIndex := - 1\<rparr>))"

definition handleSetDimensions_deferred :: "AppState \<Rightarrow> Uint8Array \<Rightarrow> AppState" where
  "handleSetDimensions_deferred s newP = s\<lparr>history := [newP], historyIndex := 0\<rparr>"

section \<open>Codec (src/utils/bitmapUtils.ts)\<close>

text \<open>
  Modelled from the spec: the module \<^verbatim>\<open>src/utils/bitmapUtils.ts\<close>, from which App.tsx
  imports \<^verbatim>\<open>generateCArray\<close> and CodeBlock.tsx imports \<^verbatim>\<open>parseCArray\<close>, is not among
  the source files. The definitions of this section follow sections 4.2, 6 and 7 of the
  specification. A pixel is set when its cell is not 0.
\<close>

text \<open>Modelled from the spec: \<open>ceil(n / 8)\<close>, the number of 8-pixel groups in \<open>n\<close> pixels.\<close>

definition ceil8 :: "nat \<Rightarrow> nat" where
  "ceil8 n = (n + 7) div 8"

text \<open>
  Modelled from the spec: the number of bytes implied by width, height and scan mode,
  \<open>ceil(width/8) * height\<close> for horizontal and \<open>width * ceil(height/8)\<close> for vertical.
\<close>

definition expectedByteCount :: "ScanMode \<Rightarrow> int \<Rightarrow> int \<Rightarrow> int" where
  "expectedByteCount mode w h =
     (case mode of
        HORIZONTAL_RASTER \<Rightarrow> ((w + 7) div 8) * h
      | VERTICAL_PAGE \<Rightarrow> w * ((h + 7) div 8))"

text \<open>
  Modelled from the spec: the bit of the \<open>i\<close>-th visited pixel of a group. Under
  MSB_FIRST the first pixel is bit 7 and the last is bit 0; LSB_FIRST is the reverse.
\<close>

definition bitPos :: "ByteOrder \<Rightarrow> nat \<Rightarrow> nat" where
  "bitPos order i = (case order of MSB_FIRST \<Rightarrow> 7 - i | LSB_FIRST \<Rightarrow> i)"

text \<open>
  Modelled from the spec: the pixel at \<open>(x, y)\<close> of a row-major grid; pixels beyond the
  width or the height are treated as 0.
\<close>

definition pixelAt :: "Uint8Array \<Rightarrow> nat \<Rightarrow> nat \<Rightarrow> nat \<Rightarrow> nat \<Rightarrow> bool" where
  "pixelAt cells w h px py =
     (px < w \<and> py < h \<and> py * w + px < length cells \<and> cells ! (py * w + px) \<noteq> 0)"

text \<open>Modelled from the spec: one byte built from the 8 pixels of a group, in scan order.\<close>

definition buildByte :: "ByteOrder \<Rightarrow> (nat \<Rightarrow> bool) \<Rightarrow> u8" where
  "buildByte order sample =
     fold (\<lambda>i b. if sample i then set_bit (bitPos order i) b else b) [0..<8] 0"

text \<open>
  Modelled from the spec: the packing algorithm. Horizontal raster: row by row, one byte
  for each group of 8 pixels of the row. Vertical page: page by page, one byte for each
  column of the page, made of 8 pixels downwards.
\<close>

definition packBytes :: "ScanMode \<Rightarrow> ByteOrder \<Rightarrow> nat \<Rightarrow> nat \<Rightarrow> Uint8Array \<Rightarrow> u8 list" where
  "packBytes mode order w h cells =
     (case mode of
        HORIZONTAL_RASTER \<Rightarrow>
          concat (map (\<lambda>row.
            map (\<lambda>g. buildByte order (\<lambda>i. pixelAt cells w h (g * 8 + i) row)) [0..<ceil8 w])
            [0..<h])
      | VERTICAL_PAGE \<Rightarrow>
          concat (map (\<lambda>page.
            map (\<lambda>col. buildByte order (\<lambda>i. pixelAt cells w h col (page * 8 + i))) [0..<w])
            [0..<ceil8 h]))"

text \<open>Modelled from the spec: a byte as the two-hex-digit literal \<^verbatim>\<open>0xNN\<close>.\<close>

definition hexDigit :: "nat \<Rightarrow> char" where
  "hexDigit d = ''0123456789ABCDEF'' ! (d mod 16)"

definition hexByte :: "u8 \<Rightarrow> string" where
  "hexByte b = [CHR ''0'', CHR ''x'', hexDigit (unat b div 16), hexDigit (unat b mod 16)]"

text \<open>
  Modelled from the spec: the literals separated by commas and wrapped into rows of
  \<open>perRow\<close> literals; \<open>k\<close> counts the literals written so far. The spec fixes no row
  width.
\<close>

fun joinBytes :: "nat \<Rightarrow> nat \<Rightarrow> u8 list \<Rightarrow> string" where
  "joinBytes perRow k [] = []"
| "joinBytes perRow k [b] = hexByte b"
| "joinBytes perRow k (b # b' # bs) =
     hexByte b @ [CHR '',''] @ (if Suc k mod perRow = 0 then [CHR 0x0A] else [CHR '' ''])
       @ joinBytes perRow (Suc k) (b' # bs)"

definition textOf :: "nat \<Rightarrow> u8 list \<Rightarrow> string" where
  "textOf perRow bytes = joinBytes perRow 0 bytes"

text \<open>
  Modelled from the spec: export, \<open>pack(buffer, scanMode, byteOrder) -> byte sequence ->
  text\<close>, here with rows of 16 literals.
\<close>

definition generateCArray :: "Uint8Array \<Rightarrow> int \<Rightarrow> int \<Rightarrow> ScanMode \<Rightarrow> ByteOrder \<Rightarrow> string" where
  "generateCArray px w h mode order = textOf 16 (packBytes mode order (nat w) (nat h) px)"

text \<open>
  Modelled from the spec: the numeric literal tokens of a text. A token is a maximal run
  of letters, digits and underscores that begins with a decimal digit; runs that begin
  otherwise (identifiers) and all other characters (whitespace, commas, braces and other
  punctuation) are noise.
\<close>

definition isDecDigit :: "char \<Rightarrow> bool" where
  "isDecDigit c = (48 \<le> (of_char c :: nat) \<and> (of_char c :: nat) \<le> 57)"

definition isWordChar :: "char \<Rightarrow> bool" where
  "isWordChar c =
     (let n = (of_char c :: nat)
      in (48 \<le> n \<and> n \<le> 57) \<or> (65 \<le> n \<and> n \<le> 90) \<or> (97 \<le> n \<and> n \<le> 122) \<or> n = 95)"

fun flushToken :: "string \<Rightarrow> string list" where
  "flushToken [] = []"
| "flushToken (c # cs) = (if isDecDigit c then [c # cs] else [])"

fun scanTokens :: "string \<Rightarrow> string \<Rightarrow> string list" where
  "scanTokens cur [] = flushToken cur"
| "scanTokens cur (c # cs) =
     (if isWordChar c then scanTokens (cur @ [c]) cs
      else flushToken cur @ scanTokens [] cs)"

definition tokensOf :: "string \<Rightarrow> string list" where
  "tokensOf text = scanTokens [] text"

text \<open>
  Modelled from the spec: the value of a token, a hexadecimal literal \<^verbatim>\<open>0x..\<close> or a
  decimal literal; \<open>None\<close> when the token is not parseable as an integer.
\<close>

definition digitValue :: "char \<Rightarrow> nat option" where
  "digitValue c =
     (let n = (of_char c :: nat)
      in if 48 \<le> n \<and> n \<le> 57 then Some (n - 48)
         else if 65 \<le> n \<and> n \<le> 70 then Some (n - 55)
         else if 97 \<le> n \<and> n \<le> 102 then Some (n - 87)
         else None)"

definition numberIn :: "nat \<Rightarrow> string \<Rightarrow> nat option" where
  "numberIn base ds =
     (if ds = [] then None
      else fold (\<lambda>c acc.
             case acc of
               None \<Rightarrow> None
             | Some a \<Rightarrow>
                 (case digitValue c of
                    None \<Rightarrow> None
                  | Some d \<Rightarrow> if d < base then Some (a * base + d) else None))
           ds (Some 0))"

definition tokenValue :: "string \<Rightarrow> nat option" where
  "tokenValue t =
     (case t of
        c0 # c1 # ds \<Rightarrow>
          if c0 = CHR ''0'' \<and> (c1 = CHR ''x'' \<or> c1 = CHR ''X'') then numberIn 16 ds
          else numberIn 10 t
      | _ \<Rightarrow> numberIn 10 t)"

text \<open>
  Modelled from the spec: the coercion of a token to an 8-bit value, which fails when the
  value exceeds \<^verbatim>\<open>0xFF\<close> or the token is not parseable; the decoded bytes of a text, if
  every token is coerced.
\<close>

definition toByte :: "nat \<Rightarrow> u8 option" where
  "toByte n = (if n > 255 then None else Some (of_nat n))"

definition tokenByte :: "string \<Rightarrow> u8 option" where
  "tokenByte t = (case tokenValue t of None \<Rightarrow> None | Some n \<Rightarrow> toByte n)"

definition decodeBytes :: "string \<Rightarrow> u8 list option" where
  "decodeBytes text = those (map tokenByte (tokensOf text))"

text \<open>
  Modelled from the spec: the reverse of the packing algorithm, the cell at \<open>(x, y)\<close> read
  from its bit of its byte.
\<close>

definition unpackCell ::
  "ScanMode \<Rightarrow> ByteOrder \<Rightarrow> nat \<Rightarrow> u8 list \<Rightarrow> nat \<Rightarrow> nat \<Rightarrow> u8" where
  "unpackCell mode order w bytes px py =
     (let k = (case mode of
                 HORIZONTAL_RASTER \<Rightarrow> py * ceil8 w + px div 8
               | VERTICAL_PAGE \<Rightarrow> (py div 8) * w + px);
          i = (case mode of HORIZONTAL_RASTER \<Rightarrow> px mod 8 | VERTICAL_PAGE \<Rightarrow> py mod 8)
      in if k < length bytes \<and> bit (bytes ! k) (bitPos order i) then 1 else 0)"

definition unpackBytes :: "ScanMode \<Rightarrow> ByteOrder \<Rightarrow> nat \<Rightarrow> nat \<Rightarrow> u8 list \<Rightarrow> Uint8Array" where
  "unpackBytes mode order w h bytes =
     map (\<lambda>n. unpackCell mode order w bytes (n mod w) (n div w)) [0..<w * h]"

text \<open>
  Modelled from the spec: import, \<open>parse(text, width, height, scanMode, byteOrder) ->
  PixelBuffer | failure\<close>. It fails when no numeric token is found, when a token is not
  coerced to a byte, and when the number of bytes is not the number implied by the
  configuration (rejection, neither truncation nor padding).
\<close>

definition parseCArray ::
  "string \<Rightarrow> int \<Rightarrow> int \<Rightarrow> ScanMode \<Rightarrow> ByteOrder \<Rightarrow> Uint8Array option" where
  "parseCArray text w h mode order =
     (case decodeBytes text of
        None \<Rightarrow> None
      | Some bytes \<Rightarrow>
          if bytes = [] then None
          else if int (length bytes) \<noteq> expectedByteCount mode w h then None
          else Some (unpackBytes mode order (nat w) (nat h) bytes))"

section \<open>Import panel (src/components/CodeBlock.tsx)\<close>

record CodeBlockState =
  isEditing :: bool
  editCode :: string
  impWidth :: int
  impHeight :: int
  impScanMode :: ScanMode
  impByteOrder :: ByteOrder
  previewPixels :: "Uint8Array option"

text \<open>
  \<^verbatim>\<open>!editCode.trim()\<close>: the text is empty once its white space and line terminators are
  trimmed, that is, it consists of them only. A text is the list of its UTF-8 bytes, so
  the characters that \<^verbatim>\<open>trim\<close> strips are one byte (tab, line feed, vertical tab, form
  feed, carriage return, space), two bytes (U+00A0) or three bytes (U+1680, U+2000 to
  U+200A, U+2028, U+2029, U+202F, U+205F, U+3000, U+FEFF).
\<close>

definition isSpace1 :: "nat \<Rightarrow> bool" where
  "isSpace1 a = (a = 9 \<or> a = 10 \<or> a = 11 \<or> a = 12 \<or> a = 13 \<or> a = 32)"

definition isSpace2 :: "nat \<Rightarrow> nat \<Rightarrow> bool" where
  "isSpace2 a b = (a = 194 \<and> b = 160)"

definition isSpace3 :: "nat \<Rightarrow> nat \<Rightarrow> nat \<Rightarrow> bool" where
  "isSpace3 a b c =
     ((a = 225 \<and> b = 154 \<and> c = 128)
      \<or> (a = 226 \<and> b = 128 \<and> ((128 \<le> c \<and> c \<le> 138) \<or> c = 168 \<or> c = 169 \<or> c = 175))
      \<or> (a = 226 \<and> b = 129 \<and> c = 159)
      \<or> (a = 227 \<and> b = 128 \<and> c = 128)
      \<or> (a = 239 \<and> b = 187 \<and> c = 191))"

fun blankBytes :: "nat list \<Rightarrow> bool" where
  "blankBytes [] = True"
| "blankBytes [a] = isSpace1 a"
| "blankBytes [a, b] = (if isSpace1 a then blankBytes [b] else isSpace2 a b)"
| "blankBytes (a # b # c # rest) =
     (if isSpace1 a then blankBytes (b # c # rest)
      else if isSpace2 a b then blankBytes (c # rest)
      else if isSpace3 a b c then blankBytes rest
      else False)"

definition isBlank :: "string \<Rightarrow> bool" where
  "isBlank text = blankBytes (map of_char text)"

text \<open>
  handlePreview: the second component tells whether the alert
  \<^verbatim>\<open>Could not parse array. Check syntax.\<close> was shown.
\<close>

definition handlePreview :: "CodeBlockState \<Rightarrow> CodeBlockState \<times> bool" where
  "handlePreview cb =
     (if isBlank (editCode cb) then (cb, False)
      else case parseCArray (editCode cb) (impWidth cb) (impHeight cb)
                  (impScanMode cb) (impByteOrder cb) of
             Some px \<Rightarrow> (cb\<lparr>previewPixels := Some px\<rparr>, False)
           | None \<Rightarrow> (cb, True))"

text \<open>handleImportCode of src/App.tsx, the \<^verbatim>\<open>onImport\<close> callback of the panel.\<close>

definition handleImportCode ::
  "AppState \<Rightarrow> Uint8Array \<Rightarrow> int \<Rightarrow> int \<Rightarrow> ScanMode \<Rightarrow> ByteOrder \<Rightarrow> AppState" where
  "handleImportCode s importedPixels w h mode order =
     s\<lparr>width := w, height := h, scanMode := mode, byteOrder := order,
       history := [importedPixels], historyIndex := 0, pixels := importedPixels\<rparr>"

definition handleApplyImport :: "AppState \<Rightarrow> CodeBlockState \<Rightarrow> AppState \<times> CodeBlockState" where
  "handleApplyImport s cb =
     (case previewPixels cb of
        None \<Rightarrow> (s, fst (handlePreview cb))
      | Some px \<Rightarrow>
          (handleImportCode s px (impWidth cb) (impHeight cb) (impScanMode cb) (impByteOrder cb),
           cb\<lparr>isEditing := False\<rparr>))"

text \<open>The export text of the application (src/App.tsx, generatedCode).\<close>

definition generatedCode :: "AppState \<Rightarrow> string" where
  "generatedCode s =
     (let exportPixels = (case floatingLayer s of
                            None \<Rightarrow> pixels s
                          | Some fl \<Rightarrow> merge_layer (pixels s) (width s) (height s) fl)
      in generateCArray exportPixels (width s) (height s) (scanMode s) (byteOrder s))"

section \<open>Reachable states of the edit engine\<close>

text \<open>The initial values of the state variables (the \<^verbatim>\<open>useState\<close> calls of \<^verbatim>\<open>App\<close>).\<close>

definition initial_state :: AppState where
  "initial_state =
     \<lparr>width = 128, height = 64, pixels = replicate (128 * 64) 0,
      history = [], historyIndex = - 1,
      tool = PEN, scanMode = VERTICAL_PAGE, byteOrder = MSB_FIRST,
      selection = None, clipboard = None, floatingLayer = None,
      backgroundSnapshot = None\<rparr>"

fun state_of :: "outcome \<Rightarrow> AppState" where
  "state_of (Done s) = s"
| "state_of (Thrown e s) = s"

text \<open>
  One rule for each handler that calls \<^verbatim>\<open>setFloatingLayer\<close> or
  \<^verbatim>\<open>setBackgroundSnapshot\<close>, with every argument it can be given and every history its
  callback may have seen. All other updates of
  the state (the mount effect that seeds the history, pen strokes, setSelection,
  handleSetDimensions and its deferred callbacks, handleImportImage, handleImportCode,
  invertCanvas, handleCopy, handleCut, history undo and redo, the tool and codec settings)
  call neither of them: rule \<open>other\<close> lets such an update change all the other fields
  in any way.
\<close>

inductive reachable :: "AppState \<Rightarrow> bool" where
  init: "reachable initial_state"
| other: "reachable s \<Longrightarrow> floatingLayer t = floatingLayer s \<Longrightarrow>
          backgroundSnapshot t = backgroundSnapshot s \<Longrightarrow> reachable t"
| undo: "reachable s \<Longrightarrow> reachable (handleUndo s)"
| paste: "reachable s \<Longrightarrow> reachable (handlePaste seen s)"
| lift: "reachable s \<Longrightarrow> reachable (state_of (handleLiftSelection seen s rect))"
| commit: "reachable s \<Longrightarrow> reachable (handleCommitFloatingLayer seen s)"
| discard: "reachable s \<Longrightarrow> reachable (handleDiscardFloatingLayer s)"
| deselect: "reachable s \<Longrightarrow> reachable (handleDeselect seen s)"
| drag: "reachable s \<Longrightarrow> reachable (dragFloatingLayer s newX newY)"
| clear: "reachable s \<Longrightarrow> reachable (state_of (clearCanvas s))"
| deleteKey: "reachable s \<Longrightarrow> reachable (handleDeleteKey seen s)"
| escapeKey: "reachable s \<Longrightarrow> reachable (handleEscapeKey s)"

section \<open>Example states\<close>

text \<open>A 2 by 2 buffer with a selection on its top-left cell, after one edit.\<close>

definition selected_state :: AppState where
  "selected_state =
     \<lparr>width = 2, height = 2, pixels = [1, 0, 0, 1],
      history = [[0, 0, 0, 0], [1, 0, 0, 1]], historyIndex = 1,
      tool = SELECT, scanMode = VERTICAL_PAGE, byteOrder = MSB_FIRST,
      selection = Some \<lparr>sel_x = 0, sel_y = 0, sel_w = 1, sel_h = 1\<rparr>,
      clipboard = None, floatingLayer = None, backgroundSnapshot = None\<rparr>"

text \<open>The same buffer with that cell lifted and dragged one cell to the right.\<close>

definition floating_state :: AppState where
  "floating_state =
     \<lparr>width = 2, height = 2, pixels = [0, 0, 0, 1],
      history = [[0, 0, 0, 0], [1, 0, 0, 1]], historyIndex = 1,
      tool = SELECT, scanMode = VERTICAL_PAGE, byteOrder = MSB_FIRST,
      selection = Some \<lparr>sel_x = 0, sel_y = 0, sel_w = 1, sel_h = 1\<rparr>,
      clipboard = Some \<lparr>clip_width = 1, clip_height = 1, clip_pixels = [1]\<rparr>,
      floatingLayer = Some \<lparr>fl_x = 1, fl_y = 0, fl_w = 1, fl_h = 1, fl_data = [1]\<rparr>,
      backgroundSnapshot = Some [1, 0, 0, 1]\<rparr>"

text \<open>
  A 4 by 2 buffer, all cells set, whose selection \<open>(3, 0, 2, 1)\<close> was made on a wider
  canvas: handleSetDimensions does not touch the selection.
\<close>

definition overhang_state :: AppState where
  "overhang_state =
     \<lparr>width = 4, height = 2, pixels = [1, 1, 1, 1, 1, 1, 1, 1],
      history = [[1, 1, 1, 1, 1, 1, 1, 1]], historyIndex = 0,
      tool = SELECT, scanMode = VERTICAL_PAGE, byteOrder = MSB_FIRST,
      selection = Some \<lparr>sel_x = 3, sel_y = 0, sel_w = 2, sel_h = 1\<rparr>,
      clipboard = None, floatingLayer = None, backgroundSnapshot = None\<rparr>"

text \<open>A fresh single-entry history over a one-cell buffer.\<close>

definition fresh_state :: AppState where
  "fresh_state =
     \<lparr>width = 1, height = 1, pixels = [0], history = [[0]], historyIndex = 0,
      tool = PEN, scanMode = VERTICAL_PAGE, byteOrder = MSB_FIRST,
      selection = None, clipboard = None, floatingLayer = None,
      backgroundSnapshot = None\<rparr>"

text \<open>
  \<open>floating_state\<close> after the canvas was set to 2 by 1 while the layer floats, and then
  after the deferred callback of handleSetDimensions seeded the history. The second step
  changes none of \<open>floatingLayer\<close>, \<open>pixels\<close>, \<open>width\<close>, \<open>height\<close>, so that the
  handleCommitFloatingLayer of \<open>reseeded_state\<close> is the one created in \<open>resized_state\<close>.
\<close>

definition resized_state :: AppState where
  "resized_state = state_of (handleSetDimensions floating_state 2 1)"

definition reseeded_state :: AppState where
  "reseeded_state = handleSetDimensions_deferred resized_state [0, 0]"

text \<open>The initial state after a Copy of an empty selection put an empty clipboard in place.\<close>

definition pasteboard_state :: AppState where
  "pasteboard_state =
     initial_state\<lparr>clipboard := Some \<lparr>clip_width = 0, clip_height = 0, clip_pixels = []\<rparr>\<rparr>"

text \<open>An 8 by 8 buffer with only the cell \<open>(0, 0)\<close> set.\<close>

definition corner_cells :: Uint8Array where
  "corner_cells = 1 # replicate 63 0"

text \<open>An import panel set to 8 by 8, horizontal raster, with five bytes typed in.\<close>

definition short_import :: CodeBlockState where
  "short_import =
     \<lparr>isEditing = True, editCode = ''{ 0x80, 0x00, 0, 0, 255 }'',
      impWidth = 8, impHeight = 8, impScanMode = HORIZONTAL_RASTER,
      impByteOrder = MSB_FIRST, previewPixels = None\<rparr>"

section \<open>History: pushing a snapshot\<close>

lemma slice0_take: "- 1 \<le> e \<Longrightarrow> slice0 xs (e + 1) = take (nat (e + 1)) xs"
  by (auto simp: slice0_def min_def)

lemma addToHistory_history:
  assumes "0 \<le> historyIndex s" and "historyIndex s < int (length (history s))"
  shows "history (addToHistory s p)
       = drop (if 50 \<le> historyIndex s then 1 else 0)
           (take (nat (historyIndex s) + 1) (history s)) @ [p]"
proof -
  define kept where "kept = take (nat (historyIndex s) + 1) (history s)"
  have sl: "slice0 (history s) (historyIndex s + 1) = kept"
    using assms unfolding kept_def by (simp add: slice0_take nat_add_distrib)
  have len: "length kept = nat (historyIndex s) + 1"
    using assms unfolding kept_def by simp
  have h: "history (addToHistory s p) = (if length kept > 50 then tl kept else kept) @ [p]"
    by (simp add: addToHistory_def Let_def sl)
  show ?thesis
  proof (cases "50 \<le> historyIndex s")
    case True
    then have "length kept > 50" using len by simp
    then have "history (addToHistory s p) = drop 1 kept @ [p]"
      using h by (simp add: drop_Suc)
    then show ?thesis using True unfolding kept_def by simp
  next
    case False
    then have "\<not> length kept > 50" using len assms by simp
    then have "history (addToHistory s p) = drop 0 kept @ [p]"
      using h by simp
    then show ?thesis using False unfolding kept_def by simp
  qed
qed

lemma addToHistory_index:
  "historyIndex (addToHistory s p) = int (length (history (addToHistory s p))) - 1"
  by (simp add: addToHistory_def Let_def)

lemma addToHistory_last: "last (history (addToHistory s p)) = p"
  by (simp add: addToHistory_def Let_def)

lemma addToHistory_no_redo: "handleRedo (addToHistory s p) = addToHistory s p"
  using addToHistory_index [of s p] by (simp add: handleRedo_def)

lemma addToHistory_frame:
  "pixels (addToHistory s p) = pixels s"
  "floatingLayer (addToHistory s p) = floatingLayer s"
  "backgroundSnapshot (addToHistory s p) = backgroundSnapshot s"
  "selection (addToHistory s p) = selection s"
  "clipboard (addToHistory s p) = clipboard s"
  "width (addToHistory s p) = width s"
  "height (addToHistory s p) = height s"
  by (simp_all add: addToHistory_def Let_def)

lemma handleUndo_history: "history (handleUndo s) = history s"
  by (simp add: handleUndo_def handleDiscardFloatingLayer_def Let_def split: option.splits)

text \<open>
  C8. A push keeps the entries up to the current index only (dropping the oldest of them
  when 51 are kept), appends the snapshot and moves the index to the new last entry.
  So after a push nothing lies beyond the index and Redo does nothing, in particular when
  the push follows an Undo.
\<close>

theorem C8_push_discards_redo_branch:
  assumes "0 \<le> historyIndex s" and "historyIndex s < int (length (history s))"
  shows "history (addToHistory s p)
           = drop (if 50 \<le> historyIndex s then 1 else 0)
               (take (nat (historyIndex s) + 1) (history s)) @ [p]
     \<and> historyIndex (addToHistory s p) = int (length (history (addToHistory s p))) - 1
     \<and> handleRedo (addToHistory s p) = addToHistory s p
     \<and> history (addToHistory (handleUndo s) p)
           = drop (if 50 \<le> historyIndex (handleUndo s) then 1 else 0)
               (take (nat (historyIndex (handleUndo s)) + 1) (history s)) @ [p]
     \<and> historyIndex (addToHistory (handleUndo s) p)
           = int (length (history (addToHistory (handleUndo s) p))) - 1
     \<and> handleRedo (addToHistory (handleUndo s) p) = addToHistory (handleUndo s) p"
proof -
  have u1: "0 \<le> historyIndex (handleUndo s)"
    using assms
    by (simp add: handleUndo_def handleDiscardFloatingLayer_def Let_def split: option.splits)
  have u2: "historyIndex (handleUndo s) < int (length (history (handleUndo s)))"
    using assms
    by (auto simp: handleUndo_def handleDiscardFloatingLayer_def Let_def split: option.splits)
  show ?thesis
    using addToHistory_history [OF assms, of p] addToHistory_history [OF u1 u2, of p]
      addToHistory_index [of s p] addToHistory_no_redo [of s p]
      addToHistory_index [of "handleUndo s" p]
      addToHistory_no_redo [of "handleUndo s" p]
    by (simp add: handleUndo_history)
qed

theorem C8_push_discards_redo_branch_witness:
  "0 \<le> historyIndex selected_state
   \<and> historyIndex selected_state < int (length (history selected_state))
   \<and> history (addToHistory (handleUndo selected_state) [1, 1, 1, 1])
       = [[0, 0, 0, 0], [1, 1, 1, 1]]
   \<and> handleRedo (addToHistory (handleUndo selected_state) [1, 1, 1, 1])
       = addToHistory (handleUndo selected_state) [1, 1, 1, 1]"
proof -
  have a: "0 \<le> historyIndex selected_state"
    by (simp add: selected_state_def)
  have b: "historyIndex selected_state < int (length (history selected_state))"
    by (simp add: selected_state_def)
  have c: "historyIndex (handleUndo selected_state) = 0"
    by (simp add: selected_state_def handleUndo_def Let_def)
  have d: "history selected_state = [[0, 0, 0, 0], [1, 0, 0, 1]]"
    by (simp add: selected_state_def)
  show ?thesis
    using C8_push_discards_redo_branch [OF a b, of "[1, 1, 1, 1]"] a b
    by (simp add: c d)
qed

section \<open>Undo and Redo while a layer floats\<close>

text \<open>
  C7. While a floating layer exists, Undo is Discard: the background snapshot becomes the
  pixel buffer, layer and snapshot are cleared, and the history and its index stay as they
  are. Redo changes nothing.
\<close>

theorem C7_undo_discards_redo_ignored_while_floating:
  assumes "floatingLayer s \<noteq> None"
  shows "handleUndo s = handleDiscardFloatingLayer s
     \<and> pixels (handleUndo s) = (case backgroundSnapshot s of Some b \<Rightarrow> b | None \<Rightarrow> pixels s)
     \<and> floatingLayer (handleUndo s) = None
     \<and> backgroundSnapshot (handleUndo s) = None
     \<and> history (handleUndo s) = history s
     \<and> historyIndex (handleUndo s) = historyIndex s
     \<and> handleRedo s = s"
  using assms
  by (auto simp: handleUndo_def handleRedo_def handleDiscardFloatingLayer_def
      split: option.splits)

theorem C7_undo_discards_redo_ignored_while_floating_witness:
  "floatingLayer floating_state \<noteq> None
   \<and> pixels (handleUndo floating_state) = [1, 0, 0, 1]
   \<and> historyIndex (handleUndo floating_state) = 1
   \<and> handleRedo floating_state = floating_state"
proof -
  have a: "floatingLayer floating_state \<noteq> None"
    by (simp add: floating_state_def)
  have b: "backgroundSnapshot floating_state = Some [1, 0, 0, 1]"
    by (simp add: floating_state_def)
  have c: "historyIndex floating_state = 1"
    by (simp add: floating_state_def)
  note t = C7_undo_discards_redo_ignored_while_floating [OF a]
  from t have "pixels (handleUndo floating_state)
      = (case backgroundSnapshot floating_state of Some b \<Rightarrow> b | None \<Rightarrow> pixels floating_state)"
    by blast
  then have p: "pixels (handleUndo floating_state) = [1, 0, 0, 1]"
    by (simp add: b)
  from t have "historyIndex (handleUndo floating_state) = historyIndex floating_state"
    by blast
  then have i: "historyIndex (handleUndo floating_state) = 1"
    by (simp add: c)
  from t have r: "handleRedo floating_state = floating_state"
    by blast
  show ?thesis
    using a p i r by blast
qed


section \<open>Loops that write cells\<close>

lemma length_u8_set [simp]: "length (u8_set a i v) = length a"
  by (simp add: u8_set_def)

lemma u8_get_u8_set:
  "u8_get (u8_set a i v) j =
     (if j = i \<and> 0 \<le> i \<and> i < int (length a)
      then Some (case v of None \<Rightarrow> 0 | Some b \<Rightarrow> b)
      else u8_get a j)"
  by (auto simp: u8_get_def u8_set_def nth_list_update)

lemma fold_product:
  "fold (\<lambda>a. fold (f a) ys) xs acc = fold (\<lambda>(a, b). f a b) (List.product xs ys) acc"
proof (induction xs arbitrary: acc)
  case Nil
  then show ?case by simp
next
  case (Cons x xs)
  have "fold (\<lambda>(a, b). f a b) (map (Pair x) ys) acc = fold (f x) ys acc"
    by (simp add: fold_map comp_def)
  then show ?case using Cons.IH by simp
qed

lemma for_loop_nested:
  "for_loop n (\<lambda>cy. for_loop m (body cy)) acc
     = fold (\<lambda>(cy, cx). body cy cx) (List.product [0..n - 1] [0..m - 1]) acc"
  by (simp add: for_loop_def [abs_def] fold_product)

lemma fold_writes_length:
  "length (fold (\<lambda>c a. if g c then u8_set a (idx c) (v c) else a) cs a) = length a"
  by (induction cs arbitrary: a) simp_all

lemma fold_writes_other:
  assumes "\<forall>c\<in>set cs. g c \<longrightarrow> idx c \<noteq> i"
  shows "u8_get (fold (\<lambda>c a. if g c then u8_set a (idx c) (v c) else a) cs a) i = u8_get a i"
  using assms by (induction cs arbitrary: a) (auto simp: u8_get_u8_set)

lemma fold_writes_hit:
  assumes "c \<in> set cs" and "g c" and "0 \<le> idx c" and "idx c < int (length a)"
    and "\<forall>d\<in>set cs. g d \<and> idx d = idx c \<longrightarrow> v d = v c"
  shows "u8_get (fold (\<lambda>c a. if g c then u8_set a (idx c) (v c) else a) cs a) (idx c)
           = Some (case v c of None \<Rightarrow> 0 | Some b \<Rightarrow> b)"
  using assms
proof (induction cs rule: rev_induct)
  case Nil
  then show ?case by simp
next
  case (snoc d ds)
  let ?r = "fold (\<lambda>c a. if g c then u8_set a (idx c) (v c) else a) ds a"
  have len: "length ?r = length a"
    by (rule fold_writes_length)
  show ?case
  proof (cases "g d \<and> idx d = idx c")
    case True
    then have "v d = v c" using snoc.prems by simp
    then show ?thesis
      using True snoc.prems(3,4) by (simp add: u8_get_u8_set len)
  next
    case False
    then have "c \<noteq> d" using snoc.prems(2) by auto
    then have "c \<in> set ds" using snoc.prems(1) by simp
    moreover have "\<forall>e\<in>set ds. g e \<and> idx e = idx c \<longrightarrow> v e = v c"
      using snoc.prems(5) by simp
    ultimately have "u8_get ?r (idx c) = Some (case v c of None \<Rightarrow> 0 | Some b \<Rightarrow> b)"
      using snoc.IH snoc.prems(2,3,4) by blast
    then show ?thesis
      using False by (auto simp: u8_get_u8_set)
  qed
qed

lemma fold_pair_split:
  "fold (\<lambda>c (b, p). if g c then (f1 c b, f2 c p) else (b, p)) cs (b0, p0)
     = (fold (\<lambda>c b. if g c then f1 c b else b) cs b0,
        fold (\<lambda>c p. if g c then f2 c p else p) cs p0)"
  by (induction cs arbitrary: b0 p0) simp_all

lemma cell_index_bounds:
  fixes tx ty wd ht :: int
  assumes "0 \<le> tx" and "tx < wd" and "0 \<le> ty" and "ty < ht"
  shows "0 \<le> ty * wd + tx" and "ty * wd + tx < wd * ht"
proof -
  show "0 \<le> ty * wd + tx" using assms by simp
  have "ty + 1 \<le> ht" using assms by simp
  then have "(ty + 1) * wd \<le> ht * wd"
    using assms by (intro mult_right_mono) simp_all
  then show "ty * wd + tx < wd * ht"
    using assms by (simp add: algebra_simps)
qed

lemma cell_index_inj:
  fixes tx ty tx' ty' wd :: int
  assumes "0 \<le> tx" and "tx < wd" and "0 \<le> tx'" and "tx' < wd"
    and "ty * wd + tx = ty' * wd + tx'"
  shows "ty = ty' \<and> tx = tx'"
proof -
  have "(ty * wd + tx) div wd = ty" "(ty * wd + tx) mod wd = tx"
    using assms(1,2) by simp_all
  moreover have "(ty' * wd + tx') div wd = ty'" "(ty' * wd + tx') mod wd = tx'"
    using assms(3,4) by simp_all
  ultimately show ?thesis using assms(5) by metis
qed

section \<open>Commit: merging the floating layer\<close>

lemma merge_layer_fold:
  "merge_layer px wd ht fl =
     fold (\<lambda>c a.
        if fl_x fl + snd c \<ge> 0 \<and> fl_x fl + snd c < wd
           \<and> fl_y fl + fst c \<ge> 0 \<and> fl_y fl + fst c < ht
        then u8_set a ((fl_y fl + fst c) * wd + (fl_x fl + snd c))
               (u8_get (fl_data fl) (fst c * fl_w fl + snd c))
        else a)
      (List.product [0..fl_h fl - 1] [0..fl_w fl - 1]) px"
  by (simp add: merge_layer_def for_loop_nested Let_def split_def)

lemma length_merge_layer [simp]: "length (merge_layer px wd ht fl) = length px"
  unfolding merge_layer_fold by (rule fold_writes_length)

lemma merge_layer_hit:
  assumes "0 \<le> cx" and "cx < fl_w fl" and "0 \<le> cy" and "cy < fl_h fl"
    and "0 \<le> fl_x fl + cx" and "fl_x fl + cx < wd"
    and "0 \<le> fl_y fl + cy" and "fl_y fl + cy < ht"
    and "int (length px) = wd * ht"
  shows "u8_get (merge_layer px wd ht fl) ((fl_y fl + cy) * wd + (fl_x fl + cx))
           = Some (case u8_get (fl_data fl) (cy * fl_w fl + cx) of None \<Rightarrow> 0 | Some b \<Rightarrow> b)"
proof -
  define g where "g = (\<lambda>c :: int \<times> int. fl_x fl + snd c \<ge> 0 \<and> fl_x fl + snd c < wd
      \<and> fl_y fl + fst c \<ge> 0 \<and> fl_y fl + fst c < ht)"
  define idx where "idx = (\<lambda>c :: int \<times> int. (fl_y fl + fst c) * wd + (fl_x fl + snd c))"
  define v where "v = (\<lambda>c :: int \<times> int. u8_get (fl_data fl) (fst c * fl_w fl + snd c))"
  define cs where "cs = List.product [0..fl_h fl - 1] [0..fl_w fl - 1]"
  have m: "merge_layer px wd ht fl
      = fold (\<lambda>c a. if g c then u8_set a (idx c) (v c) else a) cs px"
    unfolding merge_layer_fold g_def idx_def v_def cs_def ..
  have mem: "(cy, cx) \<in> set cs"
    using assms(1-4) by (simp add: cs_def)
  have gc: "g (cy, cx)"
    using assms(5-8) by (simp add: g_def)
  have b: "0 \<le> idx (cy, cx)" "idx (cy, cx) < int (length px)"
    using cell_index_bounds [OF assms(5) assms(6) assms(7) assms(8)] assms(9)
    by (simp_all add: idx_def)
  have uniq: "\<forall>d\<in>set cs. g d \<and> idx d = idx (cy, cx) \<longrightarrow> v d = v (cy, cx)"
  proof (intro ballI impI)
    fix d assume "d \<in> set cs" and h: "g d \<and> idx d = idx (cy, cx)"
    then have "0 \<le> fl_x fl + snd d" "fl_x fl + snd d < wd"
      and "(fl_y fl + fst d) * wd + (fl_x fl + snd d) = (fl_y fl + cy) * wd + (fl_x fl + cx)"
      by (simp_all add: g_def idx_def)
    from cell_index_inj [OF this(1) this(2) assms(5) assms(6) this(3)]
    have "fst d = cy \<and> snd d = cx" by simp
    then show "v d = v (cy, cx)" by (simp add: v_def)
  qed
  from fold_writes_hit [of "(cy, cx)" cs g idx px v, OF mem gc b uniq]
  show ?thesis
    unfolding m by (simp add: idx_def v_def)
qed

lemma merge_layer_other:
  assumes "0 \<le> tx" and "tx < wd"
    and "\<not> (fl_x fl \<le> tx \<and> tx < fl_x fl + fl_w fl \<and> fl_y fl \<le> ty \<and> ty < fl_y fl + fl_h fl)"
  shows "u8_get (merge_layer px wd ht fl) (ty * wd + tx) = u8_get px (ty * wd + tx)"
proof -
  define g where "g = (\<lambda>c :: int \<times> int. fl_x fl + snd c \<ge> 0 \<and> fl_x fl + snd c < wd
      \<and> fl_y fl + fst c \<ge> 0 \<and> fl_y fl + fst c < ht)"
  define idx where "idx = (\<lambda>c :: int \<times> int. (fl_y fl + fst c) * wd + (fl_x fl + snd c))"
  define v where "v = (\<lambda>c :: int \<times> int. u8_get (fl_data fl) (fst c * fl_w fl + snd c))"
  define cs where "cs = List.product [0..fl_h fl - 1] [0..fl_w fl - 1]"
  have m: "merge_layer px wd ht fl
      = fold (\<lambda>c a. if g c then u8_set a (idx c) (v c) else a) cs px"
    unfolding merge_layer_fold g_def idx_def v_def cs_def ..
  have "\<forall>d\<in>set cs. g d \<longrightarrow> idx d \<noteq> ty * wd + tx"
  proof (intro ballI impI notI)
    fix d assume d: "d \<in> set cs" and gd: "g d" and e: "idx d = ty * wd + tx"
    from gd have "0 \<le> fl_x fl + snd d" "fl_x fl + snd d < wd"
      by (simp_all add: g_def)
    moreover from e have "(fl_y fl + fst d) * wd + (fl_x fl + snd d) = ty * wd + tx"
      by (simp add: idx_def)
    ultimately have "fl_y fl + fst d = ty \<and> fl_x fl + snd d = tx"
      using cell_index_inj [of "fl_x fl + snd d" wd tx "fl_y fl + fst d" ty] assms(1,2)
      by blast
    moreover from d have "0 \<le> fst d" "fst d \<le> fl_h fl - 1" "0 \<le> snd d" "snd d \<le> fl_w fl - 1"
      by (auto simp: cs_def)
    ultimately show False using assms(3) by auto
  qed
  from fold_writes_other [of cs g idx "ty * wd + tx" v px, OF this]
  show ?thesis unfolding m .
qed

lemma updatePixels_save:
  "pixels (updatePixels seen s p True) = p"
  "history (updatePixels seen s p True)
     = history (addToHistory (s\<lparr>history := fst seen, historyIndex := snd seen\<rparr>) p)"
  "historyIndex (updatePixels seen s p True)
     = historyIndex (addToHistory (s\<lparr>history := fst seen, historyIndex := snd seen\<rparr>) p)"
  "floatingLayer (updatePixels seen s p True) = floatingLayer s"
  "backgroundSnapshot (updatePixels seen s p True) = backgroundSnapshot s"
  "selection (updatePixels seen s p True) = selection s"
  "clipboard (updatePixels seen s p True) = clipboard s"
  "width (updatePixels seen s p True) = width s"
  "height (updatePixels seen s p True) = height s"
  by (simp_all add: updatePixels_def addToHistory_def Let_def)

lemma handleCommitFloatingLayer_fields:
  assumes "floatingLayer s = Some fl"
  shows "pixels (handleCommitFloatingLayer seen s)
           = merge_layer (pixels s) (width s) (height s) fl"
    and "history (handleCommitFloatingLayer seen s)
           = history (addToHistory (s\<lparr>history := fst seen, historyIndex := snd seen\<rparr>)
               (merge_layer (pixels s) (width s) (height s) fl))"
    and "historyIndex (handleCommitFloatingLayer seen s)
           = historyIndex (addToHistory (s\<lparr>history := fst seen, historyIndex := snd seen\<rparr>)
               (merge_layer (pixels s) (width s) (height s) fl))"
    and "floatingLayer (handleCommitFloatingLayer seen s) = None"
    and "backgroundSnapshot (handleCommitFloatingLayer seen s) = None"
    and "selection (handleCommitFloatingLayer seen s) = None"
    and "clipboard (handleCommitFloatingLayer seen s) = clipboard s"
    and "width (handleCommitFloatingLayer seen s) = width s"
    and "height (handleCommitFloatingLayer seen s) = height s"
  using assms by (simp_all add: handleCommitFloatingLayer_def updatePixels_save)

text \<open>
  What Commit does for every history its callback may have seen: the cells of the layer
  with a destination inside the buffer are written, all cells outside the layer's
  rectangle are kept, and layer, snapshot and selection are cleared. The merged buffer is
  appended to the entries of the seen history up to the seen index.
\<close>

lemma handleCommitFloatingLayer_merges:
  assumes "floatingLayer s = Some fl"
    and "int (length (pixels s)) = width s * height s"
  shows "(\<forall>cx cy. 0 \<le> cx \<and> cx < fl_w fl \<and> 0 \<le> cy \<and> cy < fl_h fl
            \<and> 0 \<le> fl_x fl + cx \<and> fl_x fl + cx < width s
            \<and> 0 \<le> fl_y fl + cy \<and> fl_y fl + cy < height s
          \<longrightarrow> u8_get (pixels (handleCommitFloatingLayer seen s))
                 ((fl_y fl + cy) * width s + (fl_x fl + cx))
              = Some (case u8_get (fl_data fl) (cy * fl_w fl + cx) of
                        None \<Rightarrow> 0 | Some b \<Rightarrow> b))
     \<and> (\<forall>tx ty. 0 \<le> tx \<and> tx < width s \<and> 0 \<le> ty \<and> ty < height s
            \<and> \<not> (fl_x fl \<le> tx \<and> tx < fl_x fl + fl_w fl
                 \<and> fl_y fl \<le> ty \<and> ty < fl_y fl + fl_h fl)
          \<longrightarrow> u8_get (pixels (handleCommitFloatingLayer seen s)) (ty * width s + tx)
              = u8_get (pixels s) (ty * width s + tx))
     \<and> length (pixels (handleCommitFloatingLayer seen s)) = length (pixels s)
     \<and> floatingLayer (handleCommitFloatingLayer seen s) = None
     \<and> backgroundSnapshot (handleCommitFloatingLayer seen s) = None
     \<and> selection (handleCommitFloatingLayer seen s) = None"
proof -
  note f = handleCommitFloatingLayer_fields [OF assms(1), of seen]
  have a: "\<forall>cx cy. 0 \<le> cx \<and> cx < fl_w fl \<and> 0 \<le> cy \<and> cy < fl_h fl
            \<and> 0 \<le> fl_x fl + cx \<and> fl_x fl + cx < width s
            \<and> 0 \<le> fl_y fl + cy \<and> fl_y fl + cy < height s
          \<longrightarrow> u8_get (pixels (handleCommitFloatingLayer seen s))
                 ((fl_y fl + cy) * width s + (fl_x fl + cx))
              = Some (case u8_get (fl_data fl) (cy * fl_w fl + cx) of
                        None \<Rightarrow> 0 | Some b \<Rightarrow> b)"
    unfolding f(1) using merge_layer_hit [OF _ _ _ _ _ _ _ _ assms(2)] by blast
  have b: "\<forall>tx ty. 0 \<le> tx \<and> tx < width s \<and> 0 \<le> ty \<and> ty < height s
            \<and> \<not> (fl_x fl \<le> tx \<and> tx < fl_x fl + fl_w fl
                 \<and> fl_y fl \<le> ty \<and> ty < fl_y fl + fl_h fl)
          \<longrightarrow> u8_get (pixels (handleCommitFloatingLayer seen s)) (ty * width s + tx)
              = u8_get (pixels s) (ty * width s + tx)"
    unfolding f(1) using merge_layer_other by blast
  have c: "length (pixels (handleCommitFloatingLayer seen s)) = length (pixels s)"
    unfolding f(1) by simp
  show ?thesis
    using a b c f(4) f(5) f(6) by blast
qed

lemma handleCommitFloatingLayer_pushes_on_seen:
  assumes "floatingLayer s = Some fl"
    and "0 \<le> snd seen" and "snd seen < int (length (fst seen))"
  shows "history (handleCommitFloatingLayer seen s)
           = drop (if 50 \<le> snd seen then 1 else 0) (take (nat (snd seen) + 1) (fst seen))
             @ [pixels (handleCommitFloatingLayer seen s)]"
proof -
  let ?t = "s\<lparr>history := fst seen, historyIndex := snd seen\<rparr>"
  have a: "0 \<le> historyIndex ?t" "historyIndex ?t < int (length (history ?t))"
    using assms(2,3) by simp_all
  show ?thesis
    unfolding handleCommitFloatingLayer_fields(1,2) [OF assms(1)]
    using addToHistory_history [OF a] by simp
qed

text \<open>
  C5. Commit after a change of dimensions. In \<open>reseeded_state\<close> the history holds the
  blank buffer as its one entry and a layer floats; the commit callback of that state was
  created in \<open>resized_state\<close>, where the history was empty. Commit merges the layer, so
  the pixel buffer is \<open>[0, 1]\<close>, but the history it leaves is the merged buffer alone at
  index 0: the entry \<open>[0, 0]\<close> is gone instead of being followed by one new entry.
\<close>

theorem C5_commit_after_resize_replaces_history:
  "floatingLayer reseeded_state
     = Some \<lparr>fl_x = 1, fl_y = 0, fl_w = 1, fl_h = 1, fl_data = [1]\<rparr>
   \<and> pixels reseeded_state = [0, 0]
   \<and> history reseeded_state = [[0, 0]] \<and> historyIndex reseeded_state = 0
   \<and> floatingLayer resized_state = floatingLayer reseeded_state
   \<and> pixels resized_state = pixels reseeded_state
   \<and> width resized_state = width reseeded_state
   \<and> height resized_state = height reseeded_state
   \<and> historyView resized_state = ([], - 1)
   \<and> pixels (handleCommitFloatingLayer (historyView resized_state) reseeded_state) = [0, 1]
   \<and> history (handleCommitFloatingLayer (historyView resized_state) reseeded_state)
       = [[0, 1]]
   \<and> historyIndex (handleCommitFloatingLayer (historyView resized_state) reseeded_state) = 0"
  by code_simp

section \<open>Lift and Discard\<close>

lemma lift_region_fold:
  "lift_region px wd rect (b0, p0) =
     (fold (\<lambda>c b.
          if (sel_y rect + fst c) * wd + (sel_x rect + snd c) < int (length px)
          then u8_set b (fst c * sel_w rect + snd c)
                 (u8_get px ((sel_y rect + fst c) * wd + (sel_x rect + snd c)))
          else b)
        (List.product [0..sel_h rect - 1] [0..sel_w rect - 1]) b0,
      fold (\<lambda>c p.
          if (sel_y rect + fst c) * wd + (sel_x rect + snd c) < int (length px)
          then u8_set p ((sel_y rect + fst c) * wd + (sel_x rect + snd c)) (Some 0)
          else p)
        (List.product [0..sel_h rect - 1] [0..sel_w rect - 1]) p0)"
proof -
  have step: "(\<lambda>(cy, cx) (buffer, newPixels).
        let idx = (sel_y rect + cy) * wd + (sel_x rect + cx)
        in if idx < int (length px)
           then (u8_set buffer (cy * sel_w rect + cx) (u8_get px idx),
                 u8_set newPixels idx (Some 0))
           else (buffer, newPixels))
     = (\<lambda>c (b, p).
        if (sel_y rect + fst c) * wd + (sel_x rect + snd c) < int (length px)
        then (u8_set b (fst c * sel_w rect + snd c)
                (u8_get px ((sel_y rect + fst c) * wd + (sel_x rect + snd c))),
              u8_set p ((sel_y rect + fst c) * wd + (sel_x rect + snd c)) (Some 0))
        else (b, p))"
    by (auto simp: fun_eq_iff Let_def)
  show ?thesis
    unfolding lift_region_def for_loop_nested step by (rule fold_pair_split)
qed

lemma lift_region_buffer:
  assumes "0 \<le> cx" and "cx < sel_w rect" and "0 \<le> cy" and "cy < sel_h rect"
    and "0 \<le> sel_x rect" and "sel_x rect + sel_w rect \<le> wd"
    and "0 \<le> sel_y rect" and "sel_y rect + sel_h rect \<le> ht"
    and "int (length px) = wd * ht"
    and "int (length b0) = sel_w rect * sel_h rect"
  shows "u8_get (fst (lift_region px wd rect (b0, p0))) (cy * sel_w rect + cx)
           = u8_get px ((sel_y rect + cy) * wd + (sel_x rect + cx))"
proof -
  define g where "g = (\<lambda>c :: int \<times> int.
      (sel_y rect + fst c) * wd + (sel_x rect + snd c) < int (length px))"
  define idx where "idx = (\<lambda>c :: int \<times> int. fst c * sel_w rect + snd c)"
  define v where "v = (\<lambda>c :: int \<times> int.
      u8_get px ((sel_y rect + fst c) * wd + (sel_x rect + snd c)))"
  define cs where "cs = List.product [0..sel_h rect - 1] [0..sel_w rect - 1]"
  have m: "fst (lift_region px wd rect (b0, p0))
      = fold (\<lambda>c a. if g c then u8_set a (idx c) (v c) else a) cs b0"
    unfolding lift_region_fold g_def idx_def v_def cs_def by simp
  have src: "0 \<le> (sel_y rect + cy) * wd + (sel_x rect + cx)"
    "(sel_y rect + cy) * wd + (sel_x rect + cx) < wd * ht"
    using cell_index_bounds [of "sel_x rect + cx" wd "sel_y rect + cy" ht] assms(1-8)
    by simp_all
  have mem: "(cy, cx) \<in> set cs"
    using assms(1-4) by (simp add: cs_def)
  have gc: "g (cy, cx)"
    using src assms(9) by (simp add: g_def)
  have b: "0 \<le> idx (cy, cx)" "idx (cy, cx) < int (length b0)"
    using cell_index_bounds [OF assms(1) assms(2) assms(3) assms(4)] assms(10)
    by (simp_all add: idx_def)
  have uniq: "\<forall>d\<in>set cs. g d \<and> idx d = idx (cy, cx) \<longrightarrow> v d = v (cy, cx)"
  proof (intro ballI impI)
    fix d assume d: "d \<in> set cs" and h: "g d \<and> idx d = idx (cy, cx)"
    from d have "0 \<le> snd d" "snd d < sel_w rect"
      by (auto simp: cs_def)
    moreover from h have "fst d * sel_w rect + snd d = cy * sel_w rect + cx"
      by (simp add: idx_def)
    ultimately have "fst d = cy \<and> snd d = cx"
      using cell_index_inj [of "snd d" "sel_w rect" cx "fst d" cy] assms(1,2) by blast
    then show "v d = v (cy, cx)" by (simp add: v_def)
  qed
  from fold_writes_hit [of "(cy, cx)" cs g idx b0 v, OF mem gc b uniq]
  have "u8_get (fst (lift_region px wd rect (b0, p0))) (cy * sel_w rect + cx)
      = Some (case v (cy, cx) of None \<Rightarrow> 0 | Some b \<Rightarrow> b)"
    unfolding m by (simp add: idx_def)
  moreover have "v (cy, cx) = Some (px ! nat ((sel_y rect + cy) * wd + (sel_x rect + cx)))"
    using src assms(9) by (simp add: v_def u8_get_def)
  ultimately show ?thesis by (simp add: v_def)
qed

lemma lift_region_cleared:
  assumes "0 \<le> cx" and "cx < sel_w rect" and "0 \<le> cy" and "cy < sel_h rect"
    and "0 \<le> sel_x rect" and "sel_x rect + sel_w rect \<le> wd"
    and "0 \<le> sel_y rect" and "sel_y rect + sel_h rect \<le> ht"
    and "int (length px) = wd * ht"
  shows "u8_get (snd (lift_region px wd rect (b0, px)))
           ((sel_y rect + cy) * wd + (sel_x rect + cx)) = Some 0"
proof -
  define g where "g = (\<lambda>c :: int \<times> int.
      (sel_y rect + fst c) * wd + (sel_x rect + snd c) < int (length px))"
  define idx where "idx = (\<lambda>c :: int \<times> int.
      (sel_y rect + fst c) * wd + (sel_x rect + snd c))"
  define v where "v = (\<lambda>c :: int \<times> int. Some (0 :: u8))"
  define cs where "cs = List.product [0..sel_h rect - 1] [0..sel_w rect - 1]"
  have m: "snd (lift_region px wd rect (b0, px))
      = fold (\<lambda>c a. if g c then u8_set a (idx c) (v c) else a) cs px"
    unfolding lift_region_fold g_def idx_def v_def cs_def by simp
  have src: "0 \<le> (sel_y rect + cy) * wd + (sel_x rect + cx)"
    "(sel_y rect + cy) * wd + (sel_x rect + cx) < wd * ht"
    using cell_index_bounds [of "sel_x rect + cx" wd "sel_y rect + cy" ht] assms(1-8)
    by simp_all
  have mem: "(cy, cx) \<in> set cs"
    using assms(1-4) by (simp add: cs_def)
  have gc: "g (cy, cx)"
    using src assms(9) by (simp add: g_def)
  have b: "0 \<le> idx (cy, cx)" "idx (cy, cx) < int (length px)"
    using src assms(9) by (simp_all add: idx_def)
  have uniq: "\<forall>d\<in>set cs. g d \<and> idx d = idx (cy, cx) \<longrightarrow> v d = v (cy, cx)"
    by (simp add: v_def)
  from fold_writes_hit [of "(cy, cx)" cs g idx px v, OF mem gc b uniq]
  show ?thesis
    unfolding m by (simp add: idx_def v_def)
qed

lemma lift_region_other:
  assumes "0 \<le> tx" and "tx < wd"
    and "0 \<le> sel_x rect" and "sel_x rect + sel_w rect \<le> wd"
    and "\<not> (sel_x rect \<le> tx \<and> tx < sel_x rect + sel_w rect
           \<and> sel_y rect \<le> ty \<and> ty < sel_y rect + sel_h rect)"
  shows "u8_get (snd (lift_region px wd rect (b0, px))) (ty * wd + tx)
           = u8_get px (ty * wd + tx)"
proof -
  define g where "g = (\<lambda>c :: int \<times> int.
      (sel_y rect + fst c) * wd + (sel_x rect + snd c) < int (length px))"
  define idx where "idx = (\<lambda>c :: int \<times> int.
      (sel_y rect + fst c) * wd + (sel_x rect + snd c))"
  define v where "v = (\<lambda>c :: int \<times> int. Some (0 :: u8))"
  define cs where "cs = List.product [0..sel_h rect - 1] [0..sel_w rect - 1]"
  have m: "snd (lift_region px wd rect (b0, px))
      = fold (\<lambda>c a. if g c then u8_set a (idx c) (v c) else a) cs px"
    unfolding lift_region_fold g_def idx_def v_def cs_def by simp
  have "\<forall>d\<in>set cs. g d \<longrightarrow> idx d \<noteq> ty * wd + tx"
  proof (intro ballI impI notI)
    fix d assume d: "d \<in> set cs" and e: "idx d = ty * wd + tx"
    from d have r: "0 \<le> fst d" "fst d \<le> sel_h rect - 1" "0 \<le> snd d" "snd d \<le> sel_w rect - 1"
      by (auto simp: cs_def)
    then have "0 \<le> sel_x rect + snd d" "sel_x rect + snd d < wd"
      using assms(3,4) by simp_all
    moreover from e have "(sel_y rect + fst d) * wd + (sel_x rect + snd d) = ty * wd + tx"
      by (simp add: idx_def)
    ultimately have "sel_y rect + fst d = ty \<and> sel_x rect + snd d = tx"
      using cell_index_inj [of "sel_x rect + snd d" wd tx "sel_y rect + fst d" ty] assms(1,2)
      by blast
    then show False using r assms(5) by auto
  qed
  from fold_writes_other [of cs g idx "ty * wd + tx" v px, OF this]
  show ?thesis unfolding m .
qed

lemma handleLiftSelection_Done:
  assumes "floatingLayer s = None" and "0 \<le> sel_w rect * sel_h rect"
  shows "handleLiftSelection seen s rect =
     Done (s\<lparr>backgroundSnapshot := Some (pixels s),
             pixels := snd (lift_region (pixels s) (width s) rect
                (replicate (nat (sel_w rect * sel_h rect)) 0, pixels s)),
             floatingLayer := Some \<lparr>fl_x = sel_x rect, fl_y = sel_y rect,
               fl_w = sel_w rect, fl_h = sel_h rect,
               fl_data = fst (lift_region (pixels s) (width s) rect
                 (replicate (nat (sel_w rect * sel_h rect)) 0, pixels s))\<rparr>\<rparr>)"
  using assms
  by (simp add: handleLiftSelection_def new_Uint8Array_def Let_def split_def)

text \<open>
  C4. In the Selected state (no floating layer; the canvas calls onLiftSelection only
  then) and for a rectangle inside a buffer of \<open>width * height\<close> cells, Lift returns
  normally with a floating layer at the rectangle that holds the rectangle's cells, the
  background zeroed inside the rectangle and unchanged outside it, and the history and
  its index untouched, whatever history its callback saw. Discard right after it gives
  back the buffer as it was before the lift, clears the layer, and leaves the history and
  its index untouched as well.
\<close>

theorem C4_lift_then_discard_restores_buffer:
  assumes "floatingLayer s = None"
    and "0 \<le> sel_x rect" and "0 \<le> sel_y rect" and "0 \<le> sel_w rect" and "0 \<le> sel_h rect"
    and "sel_x rect + sel_w rect \<le> width s" and "sel_y rect + sel_h rect \<le> height s"
    and "int (length (pixels s)) = width s * height s"
  shows "\<exists>t fl. handleLiftSelection seen s rect = Done t
     \<and> floatingLayer t = Some fl
     \<and> fl_x fl = sel_x rect \<and> fl_y fl = sel_y rect
     \<and> fl_w fl = sel_w rect \<and> fl_h fl = sel_h rect
     \<and> (\<forall>cx cy. 0 \<le> cx \<and> cx < sel_w rect \<and> 0 \<le> cy \<and> cy < sel_h rect
          \<longrightarrow> u8_get (fl_data fl) (cy * sel_w rect + cx)
                = u8_get (pixels s) ((sel_y rect + cy) * width s + (sel_x rect + cx))
              \<and> u8_get (pixels t) ((sel_y rect + cy) * width s + (sel_x rect + cx))
                = Some 0)
     \<and> (\<forall>tx ty. 0 \<le> tx \<and> tx < width s \<and> 0 \<le> ty \<and> ty < height s
            \<and> \<not> (sel_x rect \<le> tx \<and> tx < sel_x rect + sel_w rect
                 \<and> sel_y rect \<le> ty \<and> ty < sel_y rect + sel_h rect)
          \<longrightarrow> u8_get (pixels t) (ty * width s + tx) = u8_get (pixels s) (ty * width s + tx))
     \<and> history t = history s \<and> historyIndex t = historyIndex s
     \<and> pixels (handleDiscardFloatingLayer t) = pixels s
     \<and> floatingLayer (handleDiscardFloatingLayer t) = None
     \<and> history (handleDiscardFloatingLayer t) = history s
     \<and> historyIndex (handleDiscardFloatingLayer t) = historyIndex s"
proof -
  define b0 :: Uint8Array where "b0 = replicate (nat (sel_w rect * sel_h rect)) 0"
  define r where "r = lift_region (pixels s) (width s) rect (b0, pixels s)"
  define fl where "fl = \<lparr>fl_x = sel_x rect, fl_y = sel_y rect,
      fl_w = sel_w rect, fl_h = sel_h rect, fl_data = fst r\<rparr>"
  define t where "t = s\<lparr>backgroundSnapshot := Some (pixels s), pixels := snd r,
      floatingLayer := Some fl\<rparr>"
  have nn: "0 \<le> sel_w rect * sel_h rect"
    using assms(4,5) by simp
  have lb: "int (length b0) = sel_w rect * sel_h rect"
    using nn by (simp add: b0_def)
  have d: "handleLiftSelection seen s rect = Done t"
    unfolding t_def fl_def r_def b0_def
    by (rule handleLiftSelection_Done [OF assms(1) nn])
  have cells: "\<forall>cx cy. 0 \<le> cx \<and> cx < sel_w rect \<and> 0 \<le> cy \<and> cy < sel_h rect
          \<longrightarrow> u8_get (fl_data fl) (cy * sel_w rect + cx)
                = u8_get (pixels s) ((sel_y rect + cy) * width s + (sel_x rect + cx))
              \<and> u8_get (pixels t) ((sel_y rect + cy) * width s + (sel_x rect + cx))
                = Some 0"
  proof (intro allI impI)
    fix cx cy
    assume c: "0 \<le> cx \<and> cx < sel_w rect \<and> 0 \<le> cy \<and> cy < sel_h rect"
    then have c1: "0 \<le> cx" and c2: "cx < sel_w rect" and c3: "0 \<le> cy" and c4: "cy < sel_h rect"
      by simp_all
    have "u8_get (fst r) (cy * sel_w rect + cx)
        = u8_get (pixels s) ((sel_y rect + cy) * width s + (sel_x rect + cx))"
      unfolding r_def
      by (rule lift_region_buffer
          [OF c1 c2 c3 c4 assms(2) assms(6) assms(3) assms(7) assms(8) lb])
    moreover have "u8_get (snd r) ((sel_y rect + cy) * width s + (sel_x rect + cx)) = Some 0"
      unfolding r_def
      by (rule lift_region_cleared
          [OF c1 c2 c3 c4 assms(2) assms(6) assms(3) assms(7) assms(8)])
    ultimately show "u8_get (fl_data fl) (cy * sel_w rect + cx)
                = u8_get (pixels s) ((sel_y rect + cy) * width s + (sel_x rect + cx))
              \<and> u8_get (pixels t) ((sel_y rect + cy) * width s + (sel_x rect + cx))
                = Some 0"
      by (simp add: fl_def t_def)
  qed
  have rest: "\<forall>tx ty. 0 \<le> tx \<and> tx < width s \<and> 0 \<le> ty \<and> ty < height s
            \<and> \<not> (sel_x rect \<le> tx \<and> tx < sel_x rect + sel_w rect
                 \<and> sel_y rect \<le> ty \<and> ty < sel_y rect + sel_h rect)
          \<longrightarrow> u8_get (pixels t) (ty * width s + tx) = u8_get (pixels s) (ty * width s + tx)"
  proof (intro allI impI)
    fix tx ty
    assume c: "0 \<le> tx \<and> tx < width s \<and> 0 \<le> ty \<and> ty < height s
            \<and> \<not> (sel_x rect \<le> tx \<and> tx < sel_x rect + sel_w rect
                 \<and> sel_y rect \<le> ty \<and> ty < sel_y rect + sel_h rect)"
    then have c1: "0 \<le> tx" and c2: "tx < width s"
      and c3: "\<not> (sel_x rect \<le> tx \<and> tx < sel_x rect + sel_w rect
                 \<and> sel_y rect \<le> ty \<and> ty < sel_y rect + sel_h rect)"
      by simp_all
    have "u8_get (snd r) (ty * width s + tx) = u8_get (pixels s) (ty * width s + tx)"
      unfolding r_def by (rule lift_region_other [OF c1 c2 assms(2) assms(6) c3])
    then show "u8_get (pixels t) (ty * width s + tx) = u8_get (pixels s) (ty * width s + tx)"
      by (simp add: t_def)
  qed
  have geo: "floatingLayer t = Some fl" "fl_x fl = sel_x rect" "fl_y fl = sel_y rect"
    "fl_w fl = sel_w rect" "fl_h fl = sel_h rect"
    by (simp_all add: t_def fl_def)
  have hist: "history t = history s" "historyIndex t = historyIndex s"
    by (simp_all add: t_def)
  have disc: "pixels (handleDiscardFloatingLayer t) = pixels s"
    "floatingLayer (handleDiscardFloatingLayer t) = None"
    "history (handleDiscardFloatingLayer t) = history s"
    "historyIndex (handleDiscardFloatingLayer t) = historyIndex s"
    by (simp_all add: t_def handleDiscardFloatingLayer_def)
  show ?thesis
    using d geo cells rest hist disc by blast
qed

theorem C4_lift_then_discard_restores_buffer_witness:
  "floatingLayer selected_state = None
   \<and> int (length (pixels selected_state)) = width selected_state * height selected_state
   \<and> (\<exists>t. handleLiftSelection (historyView selected_state) selected_state
              \<lparr>sel_x = 0, sel_y = 0, sel_w = 1, sel_h = 1\<rparr> = Done t
        \<and> u8_get (pixels t) 0 = Some 0
        \<and> pixels (handleDiscardFloatingLayer t) = [1, 0, 0, 1]
        \<and> history (handleDiscardFloatingLayer t) = [[0, 0, 0, 0], [1, 0, 0, 1]])"
proof -
  let ?r = "\<lparr>sel_x = 0, sel_y = 0, sel_w = 1, sel_h = 1\<rparr>"
  have a: "floatingLayer selected_state = None"
    by (simp add: selected_state_def)
  have b: "int (length (pixels selected_state)) = width selected_state * height selected_state"
    by (simp add: selected_state_def)
  have c: "sel_x ?r + sel_w ?r \<le> width selected_state"
    "sel_y ?r + sel_h ?r \<le> height selected_state"
    by (simp_all add: selected_state_def)
  have p: "pixels selected_state = [1, 0, 0, 1]"
    "history selected_state = [[0, 0, 0, 0], [1, 0, 0, 1]]"
    by (simp_all add: selected_state_def)
  from C4_lift_then_discard_restores_buffer
    [of selected_state ?r "historyView selected_state", OF a _ _ _ _ c b]
  obtain t where t: "handleLiftSelection (historyView selected_state) selected_state ?r = Done t"
    and z: "\<forall>cx cy. 0 \<le> cx \<and> cx < sel_w ?r \<and> 0 \<le> cy \<and> cy < sel_h ?r
          \<longrightarrow> u8_get (pixels t)
                 ((sel_y ?r + cy) * width selected_state + (sel_x ?r + cx)) = Some 0"
    and d: "pixels (handleDiscardFloatingLayer t) = pixels selected_state"
      "history (handleDiscardFloatingLayer t) = history selected_state"
    by auto
  from z [rule_format, of 0 0] have "u8_get (pixels t) 0 = Some 0"
    by simp
  then show ?thesis
    using a b t d p by auto
qed

section \<open>The length of the history\<close>

lemma addToHistory_at_end:
  assumes "historyIndex s = int (length (history s)) - 1"
  shows "history (addToHistory s p)
       = (if length (history s) > 50 then tl (history s) else history s) @ [p]"
proof -
  have "slice0 (history s) (historyIndex s + 1) = history s"
    using assms by (simp add: slice0_def)
  then show ?thesis
    by (simp add: addToHistory_def Let_def)
qed

lemma foldl_addToHistory_length:
  assumes "historyIndex s = int (length (history s)) - 1"
    and "length (history s) \<le> 51"
  shows "length (history (foldl addToHistory s ps)) = min (length (history s) + length ps) 51"
  using assms
proof (induction ps arbitrary: s)
  case Nil
  then show ?case by simp
next
  case (Cons p ps)
  have h: "history (addToHistory s p)
       = (if length (history s) > 50 then tl (history s) else history s) @ [p]"
    by (rule addToHistory_at_end [OF Cons.prems(1)])
  have l: "length (history (addToHistory s p)) = min (length (history s) + 1) 51"
    using Cons.prems(2) unfolding h by auto
  have i: "historyIndex (addToHistory s p) = int (length (history (addToHistory s p))) - 1"
    by (rule addToHistory_index)
  have "length (history (foldl addToHistory (addToHistory s p) ps))
      = min (length (history (addToHistory s p)) + length ps) 51"
    using Cons.IH [OF i] l by simp
  then show ?case
    using l by simp
qed

text \<open>
  C2. Fifty snapshots pushed onto a fresh single-entry history leave 51 entries, and so
  do fifty-one: addToHistory tests the length before it appends.
\<close>

theorem C2_history_reaches_51_entries:
  "length (history (foldl addToHistory fresh_state (replicate 50 [1]))) = 51
   \<and> length (history (foldl addToHistory fresh_state (replicate 51 [1]))) = 51"
proof -
  have a: "historyIndex fresh_state = int (length (history fresh_state)) - 1"
    by (simp add: fresh_state_def)
  have b: "length (history fresh_state) \<le> 51"
    by (simp add: fresh_state_def)
  have c: "length (history fresh_state) = 1"
    by (simp add: fresh_state_def)
  show ?thesis
    using foldl_addToHistory_length [OF a b, of "replicate 50 [1]"]
      foldl_addToHistory_length [OF a b, of "replicate 51 [1]"]
    by (simp add: c)
qed

section \<open>Paste over a floating layer\<close>

text \<open>
  C6. Paste over the floating layer of \<open>floating_state\<close>, by the callback created in
  that state: the old layer is committed, so
  the background is \<open>[0, 1, 0, 1]\<close> and the history has that buffer as its third entry,
  but the snapshot kept for Discard is \<open>[0, 0, 0, 1]\<close>, the background from before the
  commit. Discarding the pasted layer makes that the pixel buffer.
\<close>

theorem C6_paste_snapshots_background_before_commit:
  "pixels (handlePaste (historyView floating_state) floating_state) = [0, 1, 0, 1]
   \<and> history (handlePaste (historyView floating_state) floating_state)
       = [[0, 0, 0, 0], [1, 0, 0, 1], [0, 1, 0, 1]]
   \<and> backgroundSnapshot (handlePaste (historyView floating_state) floating_state)
       = Some [0, 0, 0, 1]
   \<and> pixels (handleDiscardFloatingLayer
        (handlePaste (historyView floating_state) floating_state)) = [0, 0, 0, 1]"
  by code_simp

section \<open>Rectangles that leave the buffer\<close>

text \<open>
  C9. In \<open>overhang_state\<close> the selection covers the last cell of row 0 and one cell
  beyond the right edge. Cut and Lift zero cell 4, the first cell of row 1, and Copy and
  Lift read it as the second cell of the selection.
\<close>

theorem C9_overhanging_selection_wraps_to_next_row:
  "pixels (state_of (handleCut (historyView overhang_state) overhang_state))
     = [1, 1, 1, 0, 0, 1, 1, 1]
   \<and> map_option clip_pixels (clipboard (state_of (handleCopy overhang_state))) = Some [1, 1]
   \<and> pixels (state_of (handleLiftSelection (historyView overhang_state) overhang_state
        \<lparr>sel_x = 3, sel_y = 0, sel_w = 2, sel_h = 1\<rparr>)) = [1, 1, 1, 0, 0, 1, 1, 1]"
  by code_simp

section \<open>A floating layer always has its background snapshot\<close>

lemma handleDiscardFloatingLayer_clears:
  "floatingLayer (handleDiscardFloatingLayer s) = None"
  by (simp add: handleDiscardFloatingLayer_def Let_def split: option.splits)

lemma handleCommitFloatingLayer_clears:
  "floatingLayer (handleCommitFloatingLayer seen s) = None"
  by (simp add: handleCommitFloatingLayer_def split: option.splits)

lemma handlePaste_sets_both:
  assumes "clipboard s = Some clip"
  shows "floatingLayer (handlePaste seen s) \<noteq> None"
    and "backgroundSnapshot (handlePaste seen s) = Some (pixels s)"
  using assms by (simp_all add: handlePaste_def Let_def)

lemma handleLiftSelection_sets_snapshot:
  "backgroundSnapshot (state_of (handleLiftSelection seen s rect)) = Some (pixels s)"
  by (simp add: handleLiftSelection_def Let_def split: sum.splits prod.splits)

lemma handleLiftSelection_Done_sets_layer:
  assumes "handleLiftSelection seen s rect = Done t"
  shows "floatingLayer t \<noteq> None" and "backgroundSnapshot t = Some (pixels s)"
  using assms
  by (auto simp: handleLiftSelection_def Let_def split: sum.splits prod.splits)

lemma dragFloatingLayer_frame:
  "backgroundSnapshot (dragFloatingLayer s newX newY) = backgroundSnapshot s"
  "pixels (dragFloatingLayer s newX newY) = pixels s"
  "history (dragFloatingLayer s newX newY) = history s"
  "historyIndex (dragFloatingLayer s newX newY) = historyIndex s"
  "floatingLayer (dragFloatingLayer s newX newY) = None \<longleftrightarrow> floatingLayer s = None"
  by (simp_all add: dragFloatingLayer_def split: option.splits)

lemma reachable_layer_has_snapshot:
  assumes "reachable s" and "floatingLayer s \<noteq> None"
  shows "backgroundSnapshot s \<noteq> None"
  using assms
proof (induction rule: reachable.induct)
  case init
  then show ?case by (simp add: initial_state_def)
next
  case (other s t)
  then show ?case by simp
next
  case (undo s)
  then show ?case
    by (auto simp: handleUndo_def handleDiscardFloatingLayer_clears Let_def
        split: if_splits)
next
  case (paste s seen)
  then show ?case
    by (cases "clipboard s") (simp_all add: handlePaste_def Let_def)
next
  case (lift s seen rect)
  then show ?case by (simp add: handleLiftSelection_sets_snapshot)
next
  case (commit s seen)
  then show ?case by (simp add: handleCommitFloatingLayer_clears)
next
  case (discard s)
  then show ?case by (simp add: handleDiscardFloatingLayer_clears)
next
  case (deselect s seen)
  then show ?case
    by (auto simp: handleDeselect_def handleCommitFloatingLayer_clears split: if_splits)
next
  case (drag s newX newY)
  then show ?case by (simp add: dragFloatingLayer_frame)
next
  case (clear s)
  then show ?case
    by (auto simp: clearCanvas_def Let_def updatePixels_save split: sum.splits)
next
  case (deleteKey s seen)
  then show ?case
    by (auto simp: handleDeleteKey_def handleDiscardFloatingLayer_clears updatePixels_save
        split: if_splits option.splits)
next
  case (escapeKey s)
  then show ?case
    by (auto simp: handleEscapeKey_def handleDiscardFloatingLayer_clears split: if_splits)
qed

text \<open>
  C10. In every reachable state a floating layer comes with a background snapshot. Lift
  and Paste store the pixel buffer they were called on as the snapshot when they create
  the layer, dragging changes neither the snapshot nor the pixels, Commit and Discard
  clear layer and snapshot together, and Discard of a floating layer in a reachable state
  finds a snapshot and makes it the pixel buffer. This holds for every history the
  callbacks of Lift, Paste and Commit may have seen.
\<close>

theorem C10_floating_layer_has_snapshot:
  assumes "reachable s"
  shows "(floatingLayer s \<noteq> None \<longrightarrow> backgroundSnapshot s \<noteq> None)
     \<and> (\<forall>seen rect t. handleLiftSelection seen s rect = Done t
          \<longrightarrow> floatingLayer t \<noteq> None \<and> backgroundSnapshot t = Some (pixels s))
     \<and> (clipboard s \<noteq> None
          \<longrightarrow> (\<forall>seen. floatingLayer (handlePaste seen s) \<noteq> None
                \<and> backgroundSnapshot (handlePaste seen s) = Some (pixels s)))
     \<and> (\<forall>newX newY.
            backgroundSnapshot (dragFloatingLayer s newX newY) = backgroundSnapshot s
          \<and> pixels (dragFloatingLayer s newX newY) = pixels s
          \<and> (floatingLayer (dragFloatingLayer s newX newY) = None
               \<longleftrightarrow> floatingLayer s = None))
     \<and> (floatingLayer s \<noteq> None
          \<longrightarrow> (\<forall>seen. floatingLayer (handleCommitFloatingLayer seen s) = None
                \<and> backgroundSnapshot (handleCommitFloatingLayer seen s) = None)
            \<and> floatingLayer (handleDiscardFloatingLayer s) = None
            \<and> backgroundSnapshot (handleDiscardFloatingLayer s) = None
            \<and> (\<exists>b. backgroundSnapshot s = Some b
                   \<and> pixels (handleDiscardFloatingLayer s) = b))"
proof -
  have a: "floatingLayer s \<noteq> None \<longrightarrow> backgroundSnapshot s \<noteq> None"
    using reachable_layer_has_snapshot [OF assms] by blast
  have b: "\<forall>seen rect t. handleLiftSelection seen s rect = Done t
          \<longrightarrow> floatingLayer t \<noteq> None \<and> backgroundSnapshot t = Some (pixels s)"
    using handleLiftSelection_Done_sets_layer by blast
  have c: "clipboard s \<noteq> None
          \<longrightarrow> (\<forall>seen. floatingLayer (handlePaste seen s) \<noteq> None
                \<and> backgroundSnapshot (handlePaste seen s) = Some (pixels s))"
    using handlePaste_sets_both by blast
  have d: "\<forall>newX newY.
            backgroundSnapshot (dragFloatingLayer s newX newY) = backgroundSnapshot s
          \<and> pixels (dragFloatingLayer s newX newY) = pixels s
          \<and> (floatingLayer (dragFloatingLayer s newX newY) = None
               \<longleftrightarrow> floatingLayer s = None)"
    by (simp add: dragFloatingLayer_frame)
  have e: "floatingLayer s \<noteq> None
          \<longrightarrow> (\<forall>seen. floatingLayer (handleCommitFloatingLayer seen s) = None
                \<and> backgroundSnapshot (handleCommitFloatingLayer seen s) = None)
            \<and> floatingLayer (handleDiscardFloatingLayer s) = None
            \<and> backgroundSnapshot (handleDiscardFloatingLayer s) = None
            \<and> (\<exists>b. backgroundSnapshot s = Some b
                   \<and> pixels (handleDiscardFloatingLayer s) = b)"
  proof
    assume f: "floatingLayer s \<noteq> None"
    then obtain fl where fl: "floatingLayer s = Some fl" by blast
    from f a obtain b where b: "backgroundSnapshot s = Some b" by blast
    have "pixels (handleDiscardFloatingLayer s) = b"
      "backgroundSnapshot (handleDiscardFloatingLayer s) = None"
      using fl b by (simp_all add: handleDiscardFloatingLayer_def)
    then show "(\<forall>seen. floatingLayer (handleCommitFloatingLayer seen s) = None
                \<and> backgroundSnapshot (handleCommitFloatingLayer seen s) = None)
            \<and> floatingLayer (handleDiscardFloatingLayer s) = None
            \<and> backgroundSnapshot (handleDiscardFloatingLayer s) = None
            \<and> (\<exists>b. backgroundSnapshot s = Some b
                   \<and> pixels (handleDiscardFloatingLayer s) = b)"
      using handleCommitFloatingLayer_fields(4,5) [OF fl] b
        handleDiscardFloatingLayer_clears [of s]
      by simp
  qed
  show ?thesis
    using a b c d e by blast
qed

theorem C10_floating_layer_has_snapshot_witness:
  "reachable (handlePaste (historyView pasteboard_state) pasteboard_state)
   \<and> floatingLayer (handlePaste (historyView pasteboard_state) pasteboard_state) \<noteq> None
   \<and> backgroundSnapshot (handlePaste (historyView pasteboard_state) pasteboard_state) \<noteq> None
   \<and> pixels (handleDiscardFloatingLayer (handlePaste (historyView pasteboard_state) pasteboard_state))
       = replicate (128 * 64) 0"
proof -
  have r0: "reachable pasteboard_state"
    by (rule reachable.other [OF reachable.init])
      (simp_all add: pasteboard_state_def initial_state_def)
  have r: "reachable (handlePaste (historyView pasteboard_state) pasteboard_state)"
    by (rule reachable.paste [OF r0])
  have f: "floatingLayer (handlePaste (historyView pasteboard_state) pasteboard_state) \<noteq> None"
    by (simp add: handlePaste_def pasteboard_state_def Let_def)
  have s: "backgroundSnapshot (handlePaste (historyView pasteboard_state) pasteboard_state) = Some (replicate (128 * 64) 0)"
    by (simp add: handlePaste_def pasteboard_state_def initial_state_def Let_def)
  note t = C10_floating_layer_has_snapshot [OF r]
  from t f have n: "backgroundSnapshot (handlePaste (historyView pasteboard_state) pasteboard_state) \<noteq> None"
    by blast
  from t f obtain b where "backgroundSnapshot (handlePaste (historyView pasteboard_state) pasteboard_state) = Some b"
    and "pixels (handleDiscardFloatingLayer (handlePaste (historyView pasteboard_state) pasteboard_state)) = b"
    by blast
  then have "pixels (handleDiscardFloatingLayer (handlePaste (historyView pasteboard_state) pasteboard_state))
       = replicate (128 * 64) 0"
    using s by simp
  then show ?thesis
    using r f n by blast
qed


section \<open>Codec: bits, bytes and their layout\<close>

lemma bit_fold_set_bit:
  "bit (fold (\<lambda>i b. if s i then set_bit (p i) b else b) xs (b0 :: u8)) n
     \<longleftrightarrow> bit b0 n \<or> (n < 8 \<and> (\<exists>i\<in>set xs. s i \<and> p i = n))"
  by (induction xs arbitrary: b0) (auto simp: bit_set_bit_iff)

lemma bitPos_less: "i < 8 \<Longrightarrow> bitPos order i < 8"
  by (cases order) (simp_all add: bitPos_def)

lemma bitPos_inj: "i < 8 \<Longrightarrow> j < 8 \<Longrightarrow> bitPos order j = bitPos order i \<Longrightarrow> j = i"
  by (cases order) (simp_all add: bitPos_def)

lemma bit_buildByte:
  assumes "i < 8"
  shows "bit (buildByte order s) (bitPos order i) \<longleftrightarrow> s i"
proof -
  have "(\<exists>j\<in>set [0..<8]. s j \<and> bitPos order j = bitPos order i) \<longleftrightarrow> s i"
  proof
    assume "\<exists>j\<in>set [0..<8]. s j \<and> bitPos order j = bitPos order i"
    then obtain j where j: "j < 8" "s j" "bitPos order j = bitPos order i"
      by auto
    from bitPos_inj [OF assms j(1) j(3)] j(2) show "s i"
      by simp
  next
    assume "s i"
    then show "\<exists>j\<in>set [0..<8]. s j \<and> bitPos order j = bitPos order i"
      using assms by auto
  qed
  then show ?thesis
    unfolding buildByte_def bit_fold_set_bit
    using bitPos_less [OF assms, of order] by simp
qed

lemma length_concat_rows:
  "length (concat (map (\<lambda>a. map (f a) [0..<n]) [0..<m])) = m * n"
  by (induction m) simp_all

lemma row_index_less:
  fixes i j m n :: nat
  assumes "i < m" and "j < n"
  shows "i * n + j < m * n"
proof -
  have "Suc i * n \<le> m * n"
    using assms(1) by (intro mult_le_mono1) simp
  then show ?thesis using assms(2) by simp
qed

lemma nth_concat_rows:
  assumes "i < m" and "j < n"
  shows "concat (map (\<lambda>a. map (f a) [0..<n]) [0..<m]) ! (i * n + j) = f i j"
  using assms
proof (induction m)
  case 0
  then show ?case by simp
next
  case (Suc m)
  show ?case
  proof (cases "i < m")
    case True
    then have "i * n + j < m * n"
      using Suc.prems(2) by (rule row_index_less)
    then show ?thesis
      using Suc.IH [OF True Suc.prems(2)] by (simp add: nth_append length_concat_rows)
  next
    case False
    then have "i = m" using Suc.prems(1) by simp
    then show ?thesis
      using Suc.prems(2) by (simp add: nth_append length_concat_rows)
  qed
qed

lemma group_less_ceil8: "a < n \<Longrightarrow> a div 8 < ceil8 n"
  unfolding ceil8_def by simp

lemma unpackCell_packBytes:
  assumes "px < w" and "py < h" and "length cells = w * h"
  shows "unpackCell mode order w (packBytes mode order w h cells) px py
           = (if cells ! (py * w + px) \<noteq> 0 then 1 else 0)"
proof -
  have inb: "py * w + px < length cells"
    using row_index_less [OF assms(2) assms(1)] assms(3) by (simp add: mult.commute)
  have p: "pixelAt cells w h px py \<longleftrightarrow> cells ! (py * w + px) \<noteq> 0"
    using assms(1,2) inb by (simp add: pixelAt_def)
  show ?thesis
  proof (cases mode)
    case HORIZONTAL_RASTER
    have g: "px div 8 < ceil8 w"
      using assms(1) by (rule group_less_ceil8)
    have k: "py * ceil8 w + px div 8 < h * ceil8 w"
      using assms(2) g by (rule row_index_less)
    have "packBytes mode order w h cells ! (py * ceil8 w + px div 8)
        = buildByte order (\<lambda>i. pixelAt cells w h (px div 8 * 8 + i) py)"
      unfolding packBytes_def HORIZONTAL_RASTER
      using nth_concat_rows [OF assms(2) g] by simp
    moreover have "bit (buildByte order (\<lambda>i. pixelAt cells w h (px div 8 * 8 + i) py))
        (bitPos order (px mod 8)) \<longleftrightarrow> pixelAt cells w h (px div 8 * 8 + px mod 8) py"
      by (rule bit_buildByte) simp
    moreover have "length (packBytes mode order w h cells) = h * ceil8 w"
      unfolding packBytes_def HORIZONTAL_RASTER by (simp add: length_concat_rows)
    ultimately show ?thesis
      using k p by (simp add: unpackCell_def HORIZONTAL_RASTER)
  next
    case VERTICAL_PAGE
    have g: "py div 8 < ceil8 h"
      using assms(2) by (rule group_less_ceil8)
    have k: "py div 8 * w + px < ceil8 h * w"
      using g assms(1) by (rule row_index_less)
    have "packBytes mode order w h cells ! (py div 8 * w + px)
        = buildByte order (\<lambda>i. pixelAt cells w h px (py div 8 * 8 + i))"
      unfolding packBytes_def VERTICAL_PAGE
      using nth_concat_rows [OF g assms(1)] by simp
    moreover have "bit (buildByte order (\<lambda>i. pixelAt cells w h px (py div 8 * 8 + i)))
        (bitPos order (py mod 8)) \<longleftrightarrow> pixelAt cells w h px (py div 8 * 8 + py mod 8)"
      by (rule bit_buildByte) simp
    moreover have "length (packBytes mode order w h cells) = ceil8 h * w"
      unfolding packBytes_def VERTICAL_PAGE by (simp add: length_concat_rows)
    ultimately show ?thesis
      using k p by (simp add: unpackCell_def VERTICAL_PAGE)
  qed
qed

lemma unpackBytes_packBytes:
  assumes "length cells = w * h" and "\<forall>c\<in>set cells. c = 0 \<or> c = 1"
  shows "unpackBytes mode order w h (packBytes mode order w h cells) = cells"
proof (rule nth_equalityI)
  show "length (unpackBytes mode order w h (packBytes mode order w h cells)) = length cells"
    using assms(1) by (simp add: unpackBytes_def)
next
  fix n
  assume "n < length (unpackBytes mode order w h (packBytes mode order w h cells))"
  then have n: "n < w * h"
    by (simp add: unpackBytes_def)
  then have w: "0 < w"
    by (cases w) simp_all
  have x: "n mod w < w"
    using w by simp
  have y: "n div w < h"
    using n w by (simp add: less_mult_imp_div_less mult.commute)
  have "cells ! n \<in> set cells"
    using n assms(1) by simp
  then have bin: "cells ! n = 0 \<or> cells ! n = 1"
    using assms(2) by blast
  have "unpackBytes mode order w h (packBytes mode order w h cells) ! n
      = unpackCell mode order w (packBytes mode order w h cells) (n mod w) (n div w)"
    using n by (simp add: unpackBytes_def)
  also have "\<dots> = (if cells ! (n div w * w + n mod w) \<noteq> 0 then 1 else 0)"
    by (rule unpackCell_packBytes [OF x y assms(1)])
  also have "\<dots> = cells ! n"
    using bin by auto
  finally show "unpackBytes mode order w h (packBytes mode order w h cells) ! n = cells ! n" .
qed

lemma length_packBytes:
  assumes "0 \<le> w" and "0 \<le> h"
  shows "int (length (packBytes mode order (nat w) (nat h) cells)) = expectedByteCount mode w h"
proof -
  have c: "int (ceil8 (nat w)) = (w + 7) div 8" "int (ceil8 (nat h)) = (h + 7) div 8"
    using assms by (simp_all add: ceil8_def zdiv_int nat_add_distrib)
  show ?thesis
    using assms c
    by (cases mode)
      (simp_all add: packBytes_def length_concat_rows expectedByteCount_def mult.commute)
qed

section \<open>Codec: text\<close>

lemma digitValue_hexDigit:
  assumes "d < 16"
  shows "digitValue (hexDigit d) = Some d"
proof -
  from assms have "d = 0 \<or> d = 1 \<or> d = 2 \<or> d = 3 \<or> d = 4 \<or> d = 5 \<or> d = 6 \<or> d = 7
      \<or> d = 8 \<or> d = 9 \<or> d = 10 \<or> d = 11 \<or> d = 12 \<or> d = 13 \<or> d = 14 \<or> d = 15"
    by arith
  then show ?thesis
    by (auto simp: hexDigit_def digitValue_def)
qed

lemma isWordChar_hexDigit: "isWordChar (hexDigit d)"
proof -
  define e where "e = d mod 16"
  have "e < 16"
    by (simp add: e_def)
  then have "e = 0 \<or> e = 1 \<or> e = 2 \<or> e = 3 \<or> e = 4 \<or> e = 5 \<or> e = 6 \<or> e = 7
      \<or> e = 8 \<or> e = 9 \<or> e = 10 \<or> e = 11 \<or> e = 12 \<or> e = 13 \<or> e = 14 \<or> e = 15"
    by arith
  then have "isWordChar (''0123456789ABCDEF'' ! e)"
    by (auto simp: isWordChar_def)
  then show ?thesis
    by (simp add: hexDigit_def e_def)
qed

lemma tokenValue_hexByte: "tokenValue (hexByte b) = Some (unat b)"
proof -
  have hi: "unat b div 16 < 16"
    using unsigned_less [of b, where ?'a = nat] by simp
  have "digitValue (hexDigit (unat b div 16)) = Some (unat b div 16)"
    using hi by (rule digitValue_hexDigit)
  moreover have "digitValue (hexDigit (unat b mod 16)) = Some (unat b mod 16)"
    by (rule digitValue_hexDigit) simp
  ultimately show ?thesis
    using hi by (simp add: tokenValue_def hexByte_def numberIn_def)
qed

lemma tokenByte_hexByte: "tokenByte (hexByte b) = Some b"
proof -
  have "unat b < 256"
    using unsigned_less [of b, where ?'a = nat] by simp
  then show ?thesis
    by (simp add: tokenByte_def tokenValue_hexByte toByte_def)
qed

lemma scanTokens_word:
  "list_all isWordChar t \<Longrightarrow> scanTokens cur (t @ rest) = scanTokens (cur @ t) rest"
  by (induction t arbitrary: cur) simp_all

lemma scanTokens_hexByte:
  assumes "\<not> isWordChar c"
  shows "scanTokens [] (hexByte b @ c # rest) = hexByte b # scanTokens [] rest"
proof -
  have w: "list_all isWordChar (hexByte b)"
    by (simp add: hexByte_def isWordChar_hexDigit) (simp add: isWordChar_def)
  have f: "flushToken (hexByte b) = [hexByte b]"
    by (simp add: hexByte_def isDecDigit_def)
  show ?thesis
    using assms scanTokens_word [OF w, of "[]" "c # rest"] f by simp
qed

lemma scanTokens_hexByte_end: "scanTokens [] (hexByte b) = [hexByte b]"
proof -
  have w: "list_all isWordChar (hexByte b)"
    by (simp add: hexByte_def isWordChar_hexDigit) (simp add: isWordChar_def)
  have f: "flushToken (hexByte b) = [hexByte b]"
    by (simp add: hexByte_def isDecDigit_def)
  show ?thesis
    using scanTokens_word [OF w, of "[]" "[]"] f by simp
qed

lemma noise_chars:
  "\<not> isWordChar (CHR '','')" "\<not> isWordChar (CHR '' '')" "\<not> isWordChar (CHR 0x0A)"
  by (simp_all add: isWordChar_def)

lemma scanTokens_noise: "\<not> isWordChar c \<Longrightarrow> scanTokens [] (c # rest) = scanTokens [] rest"
  by simp

lemma scanTokens_joinBytes: "scanTokens [] (joinBytes perRow k bytes) = map hexByte bytes"
proof (induction perRow k bytes rule: joinBytes.induct)
  case (1 perRow k)
  then show ?case by simp
next
  case (2 perRow k b)
  then show ?case by (simp add: scanTokens_hexByte_end)
next
  case (3 perRow k b b' bs)
  let ?sep = "if Suc k mod perRow = 0 then CHR 0x0A else CHR '' ''"
  have s: "\<not> isWordChar ?sep"
    using noise_chars by simp
  have "joinBytes perRow k (b # b' # bs)
      = hexByte b @ CHR '','' # ?sep # joinBytes perRow (Suc k) (b' # bs)"
    by simp
  then have "scanTokens [] (joinBytes perRow k (b # b' # bs))
      = hexByte b # scanTokens [] (?sep # joinBytes perRow (Suc k) (b' # bs))"
    using scanTokens_hexByte [OF noise_chars(1)] by simp
  also have "\<dots> = hexByte b # scanTokens [] (joinBytes perRow (Suc k) (b' # bs))"
    using scanTokens_noise [OF s] by simp
  finally show ?case
    using "3.IH" by simp
qed

lemma those_map_Some:
  "(\<And>a. a \<in> set xs \<Longrightarrow> f (g a) = Some a) \<Longrightarrow> those (map f (map g xs)) = Some xs"
  by (induction xs) simp_all

lemma decodeBytes_textOf: "decodeBytes (textOf perRow bytes) = Some bytes"
  unfolding decodeBytes_def tokensOf_def textOf_def scanTokens_joinBytes
  by (rule those_map_Some) (rule tokenByte_hexByte)

lemma those_eq_None: "None \<in> set xs \<Longrightarrow> those xs = None"
  by (induction xs) (auto split: option.splits)

lemma those_Nil: "those xs = Some [] \<longleftrightarrow> xs = []"
  by (cases xs) (auto split: option.splits)

lemma parseCArray_textOf_packBytes:
  assumes "0 < w" and "0 < h" and "length cells = nat (w * h)"
    and "\<forall>c\<in>set cells. c = 0 \<or> c = 1"
  shows "parseCArray (textOf perRow (packBytes mode order (nat w) (nat h) cells)) w h mode order
           = Some cells"
proof -
  let ?bytes = "packBytes mode order (nat w) (nat h) cells"
  have l: "int (length ?bytes) = expectedByteCount mode w h"
    using assms(1,2) by (intro length_packBytes) simp_all
  have "0 < (w + 7) div 8" "0 < (h + 7) div 8"
    using assms(1,2) by simp_all
  then have "0 < expectedByteCount mode w h"
    using assms(1,2) by (cases mode) (simp_all add: expectedByteCount_def)
  then have ne: "?bytes \<noteq> []"
    using l by auto
  have len: "length cells = nat w * nat h"
    using assms(1,2,3) by (simp add: nat_mult_distrib)
  have "unpackBytes mode order (nat w) (nat h) ?bytes = cells"
    using len assms(4) by (rule unpackBytes_packBytes)
  then show ?thesis
    using l ne by (simp add: parseCArray_def decodeBytes_textOf)
qed

text \<open>
  C1. For a buffer of positive width and height whose \<open>width * height\<close> cells are 0 or 1,
  and for each scan mode and byte order, parsing the text of the packed buffer with the
  same width, height, scan mode and byte order returns the buffer; this holds for the
  export text of the application and for every row width of the text.
\<close>

theorem C1_pack_then_parse_is_identity:
  assumes "0 < w" and "0 < h" and "length cells = nat (w * h)"
    and "\<forall>c\<in>set cells. c = 0 \<or> c = 1"
  shows "parseCArray (generateCArray cells w h mode order) w h mode order = Some cells
     \<and> (\<forall>perRow. parseCArray (textOf perRow (packBytes mode order (nat w) (nat h) cells))
                    w h mode order = Some cells)"
  unfolding generateCArray_def
  using parseCArray_textOf_packBytes [OF assms] by blast

theorem C1_pack_then_parse_is_identity_witness:
  "(0 :: int) < 8 \<and> length corner_cells = nat (8 * 8)
   \<and> set corner_cells = {0, 1}
   \<and> parseCArray (generateCArray corner_cells 8 8 VERTICAL_PAGE MSB_FIRST)
        8 8 VERTICAL_PAGE MSB_FIRST = Some corner_cells
   \<and> parseCArray (generateCArray corner_cells 8 8 HORIZONTAL_RASTER LSB_FIRST)
        8 8 HORIZONTAL_RASTER LSB_FIRST = Some corner_cells"
proof -
  have a: "(0 :: int) < 8" by simp
  have b: "length corner_cells = nat (8 * 8)"
    by (simp add: corner_cells_def)
  have s: "set corner_cells = {0, 1}"
    by (auto simp: corner_cells_def)
  then have c: "\<forall>c\<in>set corner_cells. c = 0 \<or> c = 1"
    by simp
  show ?thesis
    using C1_pack_then_parse_is_identity [OF a a b c, of VERTICAL_PAGE MSB_FIRST]
      C1_pack_then_parse_is_identity [OF a a b c, of HORIZONTAL_RASTER LSB_FIRST] a b s
    by blast
qed

section \<open>Codec: rejected input\<close>

lemma parseCArray_no_token:
  assumes "tokensOf text = []"
  shows "parseCArray text w h mode order = None"
  using assms by (simp add: parseCArray_def decodeBytes_def)

lemma parseCArray_bad_token:
  assumes "t \<in> set (tokensOf text)" and "tokenValue t = None \<or> (\<exists>n. tokenValue t = Some n \<and> 255 < n)"
  shows "parseCArray text w h mode order = None"
proof -
  have "tokenByte t = None"
    using assms(2) by (auto simp: tokenByte_def toByte_def)
  then have "None \<in> set (map tokenByte (tokensOf text))"
    using assms(1) by (metis image_eqI set_map)
  then have "decodeBytes text = None"
    unfolding decodeBytes_def by (rule those_eq_None)
  then show ?thesis
    by (simp add: parseCArray_def)
qed

lemma parseCArray_wrong_count:
  assumes "decodeBytes text = Some bytes" and "int (length bytes) \<noteq> expectedByteCount mode w h"
  shows "parseCArray text w h mode order = None"
  using assms by (simp add: parseCArray_def)

lemma handlePreview_failure:
  assumes "parseCArray (editCode cb) (impWidth cb) (impHeight cb)
             (impScanMode cb) (impByteOrder cb) = None"
  shows "fst (handlePreview cb) = cb"
  using assms by (simp add: handlePreview_def)

text \<open>
  C3. For the text, width, height, scan mode and byte order of the import panel: the parse
  returns the failure value when the text has no numeric token, when one of its tokens is
  not parseable or has a value above 255, and when the number of decoded bytes is not
  \<open>ceil(width/8) * height\<close> (horizontal) or \<open>width * ceil(height/8)\<close> (vertical); a
  result is returned only for a non-empty byte sequence of exactly that length. When the
  parse fails, Preview leaves the panel as it is, so its preview is not replaced, and an
  Import click on a panel without a preview leaves the pixel buffer and the history of
  the application as they are.
\<close>

theorem C3_parse_rejects_bad_input:
  "(tokensOf (editCode cb) = []
      \<longrightarrow> parseCArray (editCode cb) (impWidth cb) (impHeight cb)
            (impScanMode cb) (impByteOrder cb) = None)
   \<and> ((\<exists>t\<in>set (tokensOf (editCode cb)).
          tokenValue t = None \<or> (\<exists>n. tokenValue t = Some n \<and> 255 < n))
      \<longrightarrow> parseCArray (editCode cb) (impWidth cb) (impHeight cb)
            (impScanMode cb) (impByteOrder cb) = None)
   \<and> (\<forall>bytes. decodeBytes (editCode cb) = Some bytes
          \<and> int (length bytes) \<noteq> expectedByteCount (impScanMode cb) (impWidth cb) (impHeight cb)
      \<longrightarrow> parseCArray (editCode cb) (impWidth cb) (impHeight cb)
            (impScanMode cb) (impByteOrder cb) = None)
   \<and> (\<forall>px. parseCArray (editCode cb) (impWidth cb) (impHeight cb)
            (impScanMode cb) (impByteOrder cb) = Some px
      \<longrightarrow> (\<exists>bytes. decodeBytes (editCode cb) = Some bytes \<and> bytes \<noteq> []
            \<and> int (length bytes)
                = expectedByteCount (impScanMode cb) (impWidth cb) (impHeight cb)
            \<and> px = unpackBytes (impScanMode cb) (impByteOrder cb)
                     (nat (impWidth cb)) (nat (impHeight cb)) bytes))
   \<and> (parseCArray (editCode cb) (impWidth cb) (impHeight cb)
            (impScanMode cb) (impByteOrder cb) = None
      \<longrightarrow> fst (handlePreview cb) = cb
        \<and> (previewPixels cb = None \<longrightarrow> handleApplyImport s cb = (s, cb)))"
proof -
  let ?p = "parseCArray (editCode cb) (impWidth cb) (impHeight cb)
            (impScanMode cb) (impByteOrder cb)"
  have a: "tokensOf (editCode cb) = [] \<longrightarrow> ?p = None"
    using parseCArray_no_token by blast
  have b: "(\<exists>t\<in>set (tokensOf (editCode cb)).
          tokenValue t = None \<or> (\<exists>n. tokenValue t = Some n \<and> 255 < n)) \<longrightarrow> ?p = None"
    using parseCArray_bad_token by blast
  have c: "\<forall>bytes. decodeBytes (editCode cb) = Some bytes
          \<and> int (length bytes) \<noteq> expectedByteCount (impScanMode cb) (impWidth cb) (impHeight cb)
      \<longrightarrow> ?p = None"
    using parseCArray_wrong_count by blast
  have d: "\<forall>px. ?p = Some px
      \<longrightarrow> (\<exists>bytes. decodeBytes (editCode cb) = Some bytes \<and> bytes \<noteq> []
            \<and> int (length bytes)
                = expectedByteCount (impScanMode cb) (impWidth cb) (impHeight cb)
            \<and> px = unpackBytes (impScanMode cb) (impByteOrder cb)
                     (nat (impWidth cb)) (nat (impHeight cb)) bytes)"
    by (auto simp: parseCArray_def split: option.splits if_splits)
  have e: "?p = None
      \<longrightarrow> fst (handlePreview cb) = cb
        \<and> (previewPixels cb = None \<longrightarrow> handleApplyImport s cb = (s, cb))"
    using handlePreview_failure [of cb] by (simp add: handleApplyImport_def)
  show ?thesis
    using a b c d e by blast
qed

theorem C3_parse_rejects_bad_input_witness:
  "decodeBytes (editCode short_import) = Some [128, 0, 0, 0, 255]
   \<and> int (length [128 :: u8, 0, 0, 0, 255])
       \<noteq> expectedByteCount (impScanMode short_import) (impWidth short_import)
            (impHeight short_import)
   \<and> parseCArray (editCode short_import) (impWidth short_import) (impHeight short_import)
       (impScanMode short_import) (impByteOrder short_import) = None
   \<and> fst (handlePreview short_import) = short_import
   \<and> handleApplyImport selected_state short_import = (selected_state, short_import)"
proof -
  have a: "decodeBytes (editCode short_import) = Some [128, 0, 0, 0, 255]"
    by code_simp
  have b: "int (length [128 :: u8, 0, 0, 0, 255])
       \<noteq> expectedByteCount (impScanMode short_import) (impWidth short_import)
            (impHeight short_import)"
    by (simp add: short_import_def expectedByteCount_def)
  have n: "previewPixels short_import = None"
    by (simp add: short_import_def)
  note t = C3_parse_rejects_bad_input [of short_import selected_state]
  from t a b have p: "parseCArray (editCode short_import) (impWidth short_import)
       (impHeight short_import) (impScanMode short_import) (impByteOrder short_import) = None"
    by blast
  from t p n have "fst (handlePreview short_import) = short_import"
    and "handleApplyImport selected_state short_import = (selected_state, short_import)"
    by blast+
  then show ?thesis
    using a b p by blast
qed


end
